theory Spec2Isabelle
  imports Complex_Main
begin

section \<open>Model of the tracking service\<close>

text \<open>
  The embedding follows \<^verbatim>\<open>src/services/realTimeTracking.ts\<close> (class
  \<^verbatim>\<open>RealTimeTrackingService\<close>) and the Twilio service it calls for the emergency SMS.
  JavaScript numbers are idealised as real numbers: rounding error of IEEE doubles, NaN and
  the infinities are outside the model. An \<^verbatim>\<open>await\<close> is the point where a collaborator
  answers. In \<open>unsubscribe\<close> and in the interval callback of \<open>monitorPickupZone\<close> the
  \<^verbatim>\<open>await\<close> splits the function in two steps, between which other steps may run; the
  other asynchronous functions are given run to completion.
\<close>

subsection \<open>GeoMath: the haversine computations\<close>

record coord =
  lat :: real
  lng :: real

text \<open>\<^verbatim>\<open>Math.atan2(y, x)\<close> on the reals.\<close>

definition atan2 :: "real \<Rightarrow> real \<Rightarrow> real" where
  "atan2 y x =
     (if 0 < x then arctan (y / x)
      else if x < 0 then (if 0 \<le> y then arctan (y / x) + pi else arctan (y / x) - pi)
      else if 0 < y then pi / 2
      else if y < 0 then - (pi / 2)
      else 0)"

text \<open>
  \<^verbatim>\<open>new Date(ms)\<close>: the time value is cut to an integer number of milliseconds, and a
  value beyond 8.64e15 in magnitude gives an invalid date (\<open>None\<close>).
\<close>

definition new_Date :: "real \<Rightarrow> int option" where
  "new_Date ms =
     (if \<bar>ms\<bar> > 8640000000000000 then None
      else Some (if 0 \<le> ms then \<lfloor>ms\<rfloor> else \<lceil>ms\<rceil>))"

record eta_result =
  eta :: "int option"
  distance :: int
  duration :: int

text \<open>
  \<^verbatim>\<open>calculateETA(currentLocation, destination, currentSpeed)\<close>; the first argument is the
  reading of \<^verbatim>\<open>Date.now()\<close>. \<^verbatim>\<open>Math.round\<close> is \<open>round\<close> (halves go up).
\<close>

definition calculateETA :: "int \<Rightarrow> coord \<Rightarrow> coord \<Rightarrow> real \<Rightarrow> eta_result" where
  "calculateETA now currentLocation destination currentSpeed =
     (let R = 6371000;
          phi1 = (lat currentLocation * pi) / 180;
          phi2 = (lat destination * pi) / 180;
          dphi = ((lat destination - lat currentLocation) * pi) / 180;
          dlam = ((lng destination - lng currentLocation) * pi) / 180;
          a = sin (dphi / 2) * sin (dphi / 2)
              + cos phi1 * cos phi2 * sin (dlam / 2) * sin (dlam / 2);
          c = 2 * atan2 (sqrt a) (sqrt (1 - a));
          dist = R * c;
          speed = (if currentSpeed > 0 then currentSpeed / 3.6 else 13.89);
          dur = dist / speed
      in \<lparr> eta = new_Date (of_int now + dur * 1000),
           distance = round dist,
           duration = round dur \<rparr>)"

definition isWithinGeofence :: "coord \<Rightarrow> coord \<Rightarrow> real \<Rightarrow> bool" where
  "isWithinGeofence location center radiusMeters =
     (let R = 6371000;
          phi1 = (lat location * pi) / 180;
          phi2 = (lat center * pi) / 180;
          dphi = ((lat center - lat location) * pi) / 180;
          dlam = ((lng center - lng location) * pi) / 180;
          a = sin (dphi / 2) * sin (dphi / 2)
              + cos phi1 * cos phi2 * sin (dlam / 2) * sin (dlam / 2);
          c = 2 * atan2 (sqrt a) (sqrt (1 - a));
          dist = R * c
      in dist \<le> radiusMeters)"

subsection \<open>The haversine distance as the specification words it\<close>

text \<open>
  The specification's \<^verbatim>\<open>distanceMeters(a, b)\<close>: the great-circle distance by the haversine
  formula, \<open>2 R arcsin (sqrt h)\<close> with \<open>h = hav \<Delta>\<phi> + cos \<phi>\<^sub>1 cos \<phi>\<^sub>2 hav \<Delta>\<lambda>\<close> and Earth radius
  6,371,000 m. The source has no such function: both \<open>calculateETA\<close> and
  \<open>isWithinGeofence\<close> compute it in line, in the \<open>atan2\<close> form.
\<close>

definition haversin :: "real \<Rightarrow> real" where
  "haversin t = (1 - cos t) / 2"

definition radians :: "real \<Rightarrow> real" where
  "radians d = d * pi / 180"

definition distanceMeters :: "coord \<Rightarrow> coord \<Rightarrow> real" where
  "distanceMeters p q =
     2 * 6371000 * arcsin (sqrt (haversin (radians (lat q) - radians (lat p))
        + cos (radians (lat p)) * cos (radians (lat q))
          * haversin (radians (lng q) - radians (lng p))))"

text \<open>The argument of the square roots, as both source functions compute it.\<close>

definition hav_arg :: "real \<Rightarrow> real \<Rightarrow> real \<Rightarrow> real \<Rightarrow> real" where
  "hav_arg p1 p2 dp dl =
     sin (dp / 2) * sin (dp / 2) + cos p1 * cos p2 * sin (dl / 2) * sin (dl / 2)"

subsection \<open>Collaborators and the record of their calls\<close>

text \<open>
  The backend client, the dynamic imports, the push sender, \<^verbatim>\<open>fetch\<close>, the clock and the
  Twilio configuration are not code of the service: they are parameters. A collaborator
  answers a call from the calls made so far (the history, a list of events) and the
  arguments, so two calls with the same arguments may be answered differently. The model
  appends one event per call, which makes the calls of a run observable.

  A promise either resolves with a value or rejects with an error, of which the message
  is kept.
\<close>

datatype 'a outcome = Resolved 'a | Rejected string

record auth_user =
  uid :: string

record emergency_contact =
  contact_name :: string
  phone :: string

record profile_row =
  full_name :: "string option"
  emergency_contacts :: "emergency_contact list option"

record booking_row =
  passenger_id :: "string option"

record trip_row =
  driver_id :: "string option"
  bookings :: "booking_row list option"

record geolocation_position =
  latitude :: real
  longitude :: real
  heading :: "real option"
  speed :: "real option"
  accuracy :: real

record live_location =
  loc_trip_id :: string
  loc_user_id :: string
  loc_coordinates :: coord
  loc_heading :: real
  loc_speed :: real
  loc_accuracy :: real
  loc_updated_at :: int

datatype trip_status = waiting | arriving | picked_up | in_progress | completed | cancelled

record trip_update =
  upd_status :: trip_status
  upd_eta :: "int option"
  upd_distance_remaining :: "real option"
  upd_duration_remaining :: "real option"
  upd_updated_at :: int

record emergency_alert =
  alert_trip_id :: string
  alert_user_id :: string
  alert_location :: coord
  alert_reason :: "string option"
  alert_status :: string
  alert_created_at :: int

text \<open>
  Texts built by template literals are kept structured: the emergency SMS holds the user
  name, the first eight characters of the trip id and the location of the map link; the
  push notification holds the trip id prefix of its body, the trip id and the location.
\<close>

datatype sms_text = EmergencyAlertText string string coord

datatype push_notification = EmergencyPush string string coord

datatype request_body =
    SendSmsBody string sms_text
  | EmergencyNotifyBody string string coord int

datatype event =
    GetUser
  | UpsertLiveLocation live_location
  | UpdateTrip string trip_update
  | InsertEmergencyAlert emergency_alert
  | SelectProfile string
  | ImportTwilioService
  | ImportIntegrations
  | SelectTrip string
  | SendPushNotification string push_notification
  | Fetch string request_body
  | MockSms string sms_text
  | ConsoleLog string
  | ConsoleError string

record json_reply =
  reply_message :: "string option"
  reply_messageSid :: "string option"

text \<open>A response of \<^verbatim>\<open>fetch\<close>: its \<^verbatim>\<open>ok\<close> flag and what \<^verbatim>\<open>response.json()\<close> gives
  (\<open>None\<close> is a body that is \<^verbatim>\<open>null\<close>).\<close>

record http_response =
  ok :: bool
  json :: "json_reply option outcome"

record collaborators =
  auth_getUser :: "event list \<Rightarrow> auth_user option outcome"
  upsert_live_location :: "event list \<Rightarrow> live_location \<Rightarrow> unit outcome"
  update_trip :: "event list \<Rightarrow> string \<Rightarrow> trip_update \<Rightarrow> string option outcome"
  insert_emergency_alert :: "event list \<Rightarrow> emergency_alert \<Rightarrow> string option outcome"
  select_profile :: "event list \<Rightarrow> string \<Rightarrow> profile_row option outcome"
  import_twilioService :: "event list \<Rightarrow> unit outcome"
  import_integrations :: "event list \<Rightarrow> unit outcome"
  select_trip :: "event list \<Rightarrow> string \<Rightarrow> trip_row option outcome"
  sendPushNotification :: "event list \<Rightarrow> string \<Rightarrow> push_notification \<Rightarrow> unit outcome"
  fetch :: "event list \<Rightarrow> string \<Rightarrow> request_body \<Rightarrow> http_response outcome"
  clock :: "event list \<Rightarrow> int"
  twilio_account_sid :: "string option"
  twilio_auth_token :: "string option"
  twilio_phone_number :: "string option"
  twilio_enabled :: bool

text \<open>
  The store answers an update or an insert with \<^verbatim>\<open>{ error }\<close>: \<open>Some\<close> message when the
  write failed, \<open>None\<close> when it succeeded. \<open>twilio_enabled\<close> is
  \<^verbatim>\<open>INTEGRATION_CONFIG.twilio.enabled\<close>; the three \<open>twilio_\<close> strings are the variables of
  \<^verbatim>\<open>process.env\<close> (\<open>None\<close> when a variable is not set; the object \<^verbatim>\<open>process.env\<close> itself
  is taken to exist).
\<close>

subsection \<open>The Twilio service\<close>

record twilio_config =
  accountSid :: string
  authToken :: string
  phoneNumber :: string

definition or_empty :: "string option \<Rightarrow> string" where
  "or_empty v = (case v of None \<Rightarrow> [] | Some s \<Rightarrow> s)"

definition getTwilioConfig :: "collaborators \<Rightarrow> twilio_config option" where
  "getTwilioConfig env =
     (let sid = or_empty (twilio_account_sid env);
          token = or_empty (twilio_auth_token env);
          number = or_empty (twilio_phone_number env)
      in if sid = [] \<or> token = [] then None
         else Some \<lparr> accountSid = sid, authToken = token, phoneNumber = number \<rparr>)"

datatype message_sid = SM_mock int | SM string

record sms_result =
  success :: bool
  messageSid :: "message_sid option"
  error :: "string option"

definition sms_failure :: "string option \<Rightarrow> sms_result" where
  "sms_failure m = \<lparr> success = False, messageSid = None, error = m \<rparr>"

text \<open>
  \<^verbatim>\<open>sendSMS(to, message)\<close>. Without credentials, or with the integration switched off, the
  SMS is only logged and reported as sent (the mock id is read from the clock after the
  log line). Otherwise every failure inside the
  \<^verbatim>\<open>try\<close> block (a rejected \<^verbatim>\<open>fetch\<close>, a body that cannot be read, a \<^verbatim>\<open>null\<close> body) ends in
  \<^verbatim>\<open>{ success: false }\<close>.
\<close>

definition sendSMS ::
  "collaborators \<Rightarrow> string \<Rightarrow> sms_text \<Rightarrow> event list \<Rightarrow> sms_result \<times> event list" where
  "sendSMS env to message h =
     (if getTwilioConfig env = None \<or> \<not> twilio_enabled env
      then (\<lparr> success = True,
              messageSid = Some (SM_mock (clock env (h @ [MockSms to message]))),
              error = None \<rparr>,
            h @ [MockSms to message])
      else
        (let h1 = h @ [Fetch ''/api/twilio/send-sms'' (SendSmsBody to message)];
             caught = (\<lambda>m. (sms_failure (Some m), h1 @ [ConsoleError ''SMS send failed:'']))
         in case fetch env h ''/api/twilio/send-sms'' (SendSmsBody to message) of
              Rejected m \<Rightarrow> caught m
            | Resolved response \<Rightarrow>
                if \<not> ok response
                then (case json response of
                        Rejected m \<Rightarrow> caught m
                      | Resolved None \<Rightarrow> caught ''Cannot read properties of null (reading message)''
                      | Resolved (Some err) \<Rightarrow>
                          (sms_failure
                             (Some (case reply_message err of
                                      None \<Rightarrow> ''Failed to send SMS''
                                    | Some m \<Rightarrow> if m = [] then ''Failed to send SMS'' else m)),
                           h1))
                else (case json response of
                        Rejected m \<Rightarrow> caught m
                      | Resolved None \<Rightarrow> caught ''Cannot read properties of null (reading messageSid)''
                      | Resolved (Some data) \<Rightarrow>
                          (\<lparr> success = True,
                             messageSid = map_option SM (reply_messageSid data),
                             error = None \<rparr>, h1))))"

record sms_counts =
  sent :: nat
  failed :: nat

text \<open>The \<^verbatim>\<open>for\<close> loop of \<^verbatim>\<open>sendEmergencySMS\<close>, with its two counters.\<close>

fun sendEmergencySMS_loop ::
  "collaborators \<Rightarrow> sms_text \<Rightarrow> emergency_contact list \<Rightarrow> nat \<Rightarrow> nat \<Rightarrow> event list
     \<Rightarrow> sms_counts \<times> event list" where
  "sendEmergencySMS_loop env message [] n_sent n_failed h =
     (\<lparr> sent = n_sent, failed = n_failed \<rparr>, h)"
| "sendEmergencySMS_loop env message (contact # rest) n_sent n_failed h =
     (case sendSMS env (phone contact) message h of
        (result, h1) \<Rightarrow>
          if success result
          then sendEmergencySMS_loop env message rest (n_sent + 1) n_failed h1
          else sendEmergencySMS_loop env message rest n_sent (n_failed + 1) h1)"

definition sendEmergencySMS ::
  "collaborators \<Rightarrow> emergency_contact list \<Rightarrow> coord \<Rightarrow> string \<Rightarrow> string \<Rightarrow> event list
     \<Rightarrow> sms_counts \<times> event list" where
  "sendEmergencySMS env emergencyContacts location tripId userName h =
     sendEmergencySMS_loop env (EmergencyAlertText userName (take 8 tripId) location)
       emergencyContacts 0 0 h"

subsection \<open>Location publishing and trip status\<close>

text \<open>
  \<^verbatim>\<open>broadcastLocation(tripId, position)\<close>. The user is looked up before the \<^verbatim>\<open>try\<close> block,
  so a rejected lookup rejects the call; a failed upsert is logged and swallowed.
  \<^verbatim>\<open>user?.id || ''\<close>, \<^verbatim>\<open>heading || 0\<close> and \<^verbatim>\<open>speed || 0\<close> put a default where the value is
  missing (or is itself the empty string, or zero).
\<close>

definition or_zero :: "real option \<Rightarrow> real" where
  "or_zero v = (case v of None \<Rightarrow> 0 | Some x \<Rightarrow> x)"

definition broadcastLocation ::
  "collaborators \<Rightarrow> string \<Rightarrow> geolocation_position \<Rightarrow> event list \<Rightarrow> unit outcome \<times> event list"
  where
  "broadcastLocation env tripId position h =
     (let h1 = h @ [GetUser] in
      case auth_getUser env h of
        Rejected m \<Rightarrow> (Rejected m, h1)
      | Resolved user \<Rightarrow>
          (let locationUpdate =
                 \<lparr> loc_trip_id = tripId,
                   loc_user_id = (case user of None \<Rightarrow> [] | Some u \<Rightarrow> uid u),
                   loc_coordinates = \<lparr> lat = latitude position, lng = longitude position \<rparr>,
                   loc_heading = or_zero (heading position),
                   loc_speed = or_zero (speed position),
                   loc_accuracy = accuracy position,
                   loc_updated_at = clock env h1 \<rparr>;
               h2 = h1 @ [UpsertLiveLocation locationUpdate]
           in case upsert_live_location env h1 locationUpdate of
                Rejected m \<Rightarrow> (Resolved (), h2 @ [ConsoleError ''Failed to broadcast location:''])
              | Resolved _ \<Rightarrow> (Resolved (), h2)))"

text \<open>
  A \<^verbatim>\<open>Date\<close> is its time value in milliseconds, or the invalid date, on which
  \<^verbatim>\<open>toISOString\<close> throws a \<^verbatim>\<open>RangeError\<close>.
\<close>

datatype js_date = Date int | Invalid_Date

definition toISOString :: "js_date \<Rightarrow> int outcome" where
  "toISOString d = (case d of Date t \<Rightarrow> Resolved t | Invalid_Date \<Rightarrow> Rejected ''Invalid time value'')"

text \<open>
  \<^verbatim>\<open>updateTripStatus(tripId, status, eta?, distance?, duration?)\<close>; the optional arguments
  are \<open>None\<close> when left out. The object sent to the store is built inside the \<^verbatim>\<open>try\<close>
  block, so an \<^verbatim>\<open>eta\<close> that is the invalid date ends in the \<^verbatim>\<open>catch\<close> before anything is
  sent.
\<close>

definition updateTripStatus ::
  "collaborators \<Rightarrow> string \<Rightarrow> trip_status \<Rightarrow> js_date option \<Rightarrow> real option \<Rightarrow> real option
     \<Rightarrow> event list \<Rightarrow> bool \<times> event list" where
  "updateTripStatus env tripId status eta_opt distance_opt duration_opt h =
     (let caught = (\<lambda>hc. (False, hc @ [ConsoleError ''Failed to update trip status:''])) in
      case (case eta_opt of
              None \<Rightarrow> Resolved None
            | Some d \<Rightarrow> (case toISOString d of
                           Rejected m \<Rightarrow> Rejected m
                         | Resolved stamp \<Rightarrow> Resolved (Some stamp))) of
        Rejected m \<Rightarrow> caught h
      | Resolved eta_iso \<Rightarrow>
          (let upd = \<lparr> upd_status = status, upd_eta = eta_iso,
                       upd_distance_remaining = distance_opt,
                       upd_duration_remaining = duration_opt,
                       upd_updated_at = clock env h \<rparr>;
               h1 = h @ [UpdateTrip tripId upd]
           in case update_trip env h tripId upd of
                Rejected m \<Rightarrow> caught h1
              | Resolved (Some err) \<Rightarrow> caught h1
              | Resolved None \<Rightarrow> (True, h1)))"

subsection \<open>Emergency SOS\<close>

text \<open>\<^verbatim>\<open>[...].filter(Boolean)\<close> on ids: an id that is missing or empty is dropped.\<close>

definition filter_Boolean :: "string option list \<Rightarrow> string list" where
  "filter_Boolean ids =
     List.map_filter (\<lambda>v. case v of None \<Rightarrow> None | Some s \<Rightarrow> if s = [] then None else Some s) ids"

definition participants_of :: "trip_row \<Rightarrow> string list" where
  "participants_of trip =
     filter_Boolean
       (driver_id trip # map passenger_id (case bookings trip of None \<Rightarrow> [] | Some bs \<Rightarrow> bs))"

text \<open>The loop over the participants: a push send that rejects leaves the loop.\<close>

fun push_participants ::
  "collaborators \<Rightarrow> string \<Rightarrow> coord \<Rightarrow> string list \<Rightarrow> event list \<Rightarrow> unit outcome \<times> event list"
  where
  "push_participants env tripId location [] h = (Resolved (), h)"
| "push_participants env tripId location (participantId # rest) h =
     (let note = EmergencyPush (take 8 tripId) tripId location;
          h1 = h @ [SendPushNotification participantId note]
      in case sendPushNotification env h participantId note of
           Rejected m \<Rightarrow> (Rejected m, h1)
         | Resolved _ \<Rightarrow> push_participants env tripId location rest h1)"

text \<open>The call of the emergency-services endpoint, in its own \<^verbatim>\<open>try\<close>/\<^verbatim>\<open>catch\<close>.\<close>

definition notify_emergency_services ::
  "collaborators \<Rightarrow> string \<Rightarrow> string \<Rightarrow> coord \<Rightarrow> event list \<Rightarrow> event list" where
  "notify_emergency_services env tripId userId location h =
     (let body = EmergencyNotifyBody tripId userId location (clock env h);
          h1 = h @ [Fetch ''/api/emergency/notify'' body]
      in case fetch env h ''/api/emergency/notify'' body of
           Rejected m \<Rightarrow> h1 @ [ConsoleError ''Failed to notify emergency services:'']
         | Resolved _ \<Rightarrow> h1)"

text \<open>The body of the outer \<^verbatim>\<open>try\<close> of \<^verbatim>\<open>notifyEmergencyContacts\<close>: \<open>Rejected\<close> is an
  exception on its way to the \<^verbatim>\<open>catch\<close>.\<close>

definition notifyEmergencyContacts_try ::
  "collaborators \<Rightarrow> string \<Rightarrow> string \<Rightarrow> coord \<Rightarrow> event list \<Rightarrow> unit outcome \<times> event list"
  where
  "notifyEmergencyContacts_try env tripId userId location h =
     (let h1 = h @ [SelectProfile userId] in
      case select_profile env h userId of
        Rejected m \<Rightarrow> (Rejected m, h1)
      | Resolved None \<Rightarrow> (Resolved (), h1 @ [ConsoleError ''User profile not found''])
      | Resolved (Some profile) \<Rightarrow>
          (let h2 = h1 @ [ImportTwilioService] in
           case import_twilioService env h1 of
             Rejected m \<Rightarrow> (Rejected m, h2)
           | Resolved _ \<Rightarrow>
               (let h3 = h2 @ [ImportIntegrations] in
                case import_integrations env h2 of
                  Rejected m \<Rightarrow> (Rejected m, h3)
                | Resolved _ \<Rightarrow>
                    (let emergencyContacts =
                           (case emergency_contacts profile of None \<Rightarrow> [] | Some cs \<Rightarrow> cs);
                         userName =
                           (case full_name profile of
                              None \<Rightarrow> ''User''
                            | Some n \<Rightarrow> if n = [] then ''User'' else n);
                         h4 = (if length emergencyContacts > 0
                               then snd (sendEmergencySMS env emergencyContacts location tripId
                                           userName h3)
                               else h3);
                         h5 = h4 @ [SelectTrip tripId]
                     in case select_trip env h4 tripId of
                          Rejected m \<Rightarrow> (Rejected m, h5)
                        | Resolved trip \<Rightarrow>
                            (case (case trip of
                                     None \<Rightarrow> (Resolved (), h5)
                                   | Some t \<Rightarrow>
                                       push_participants env tripId location
                                         (participants_of t) h5) of
                               (Rejected m, h6) \<Rightarrow> (Rejected m, h6)
                             | (Resolved _, h6) \<Rightarrow>
                                 (Resolved (),
                                  notify_emergency_services env tripId userId location h6
                                    @ [ConsoleLog ''Emergency notifications sent:'']))))))"

definition notifyEmergencyContacts ::
  "collaborators \<Rightarrow> string \<Rightarrow> string \<Rightarrow> coord \<Rightarrow> event list \<Rightarrow> unit outcome \<times> event list"
  where
  "notifyEmergencyContacts env tripId userId location h =
     (case notifyEmergencyContacts_try env tripId userId location h of
        (Rejected m, h1) \<Rightarrow>
          (Resolved (), h1 @ [ConsoleError ''Failed to notify emergency contacts:''])
      | (Resolved u, h1) \<Rightarrow> (Resolved u, h1))"

definition sendEmergencySOS ::
  "collaborators \<Rightarrow> string \<Rightarrow> coord \<Rightarrow> string option \<Rightarrow> event list \<Rightarrow> bool \<times> event list"
  where
  "sendEmergencySOS env tripId location reason h =
     (let h1 = h @ [GetUser];
          caught = (\<lambda>hc. (False, hc @ [ConsoleError ''Failed to send SOS:'']))
      in case auth_getUser env h of
           Rejected m \<Rightarrow> caught h1
         | Resolved None \<Rightarrow> caught h1
         | Resolved (Some user) \<Rightarrow>
             (let alert = \<lparr> alert_trip_id = tripId, alert_user_id = uid user,
                            alert_location = location, alert_reason = reason,
                            alert_status = ''active'', alert_created_at = clock env h1 \<rparr>;
                  h2 = h1 @ [InsertEmergencyAlert alert]
              in case insert_emergency_alert env h1 alert of
                   Rejected m \<Rightarrow> caught h2
                 | Resolved (Some err) \<Rightarrow> caught h2
                 | Resolved None \<Rightarrow>
                     (case notifyEmergencyContacts env tripId (uid user) location h2 of
                        (Rejected m, h3) \<Rightarrow> caught h3
                      | (Resolved _, h3) \<Rightarrow> (True, h3))))"

subsection \<open>The service instance: channel registry and position watch\<close>

text \<open>
  The fields of the class (\<open>channels\<close>, \<open>locationWatchId\<close>, \<open>currentTripId\<close>) and, beside
  them, what the platform holds: the channels joined at the realtime transport, the calls of
  \<^verbatim>\<open>removeChannel\<close> made so far, the position watches of \<^verbatim>\<open>navigator.geolocation\<close>, and
  the console. A \<^verbatim>\<open>Map\<close> keeps its entries in insertion order, hence the association list.
  The transport gives every channel it opens a fresh number. The handlers wired to a channel
  and the callbacks of the position watch are not part of the state: only which channels and
  watches exist.

  \<open>unsubscribe\<close> awaits \<^verbatim>\<open>removeChannel\<close> between reading the map and deleting the key.
  The calls of \<open>unsubscribe\<close> that stand at this \<^verbatim>\<open>await\<close> are kept in \<open>unsubscribing\<close>, each
  with a task number, its channel name and the way its \<^verbatim>\<open>removeChannel\<close> settles: it
  resolves with a status (which the service ignores) after ending the channel, or it rejects,
  in which case the channel is taken to stay joined.
\<close>

record channel_info =
  topic :: string
  on_event :: string
  on_table :: string
  on_filter :: string

record tracking =
  channels :: "(string \<times> nat) list"
  locationWatchId :: "nat option"
  currentTripId :: "string option"
  live_channels :: "(nat \<times> channel_info) list"
  next_channel :: nat
  removeChannel_calls :: "nat list"
  unsubscribing :: "(nat \<times> string \<times> string outcome) list"
  next_task :: nat
  geolocation :: bool
  watches :: "(nat \<times> string) list"
  next_watch :: nat
  warnings :: "string list"

definition new_service :: "bool \<Rightarrow> tracking" where
  "new_service geo =
     \<lparr> channels = [], locationWatchId = None, currentTripId = None,
       live_channels = [], next_channel = 0, removeChannel_calls = [],
       unsubscribing = [], next_task = 0,
       geolocation = geo, watches = [], next_watch = 0, warnings = [] \<rparr>"

text \<open>\<^verbatim>\<open>supabase.channel(name).on(...).subscribe()\<close>.\<close>

definition open_channel :: "channel_info \<Rightarrow> tracking \<Rightarrow> nat \<times> tracking" where
  "open_channel info st =
     (next_channel st,
      st \<lparr> live_channels := live_channels st @ [(next_channel st, info)],
          next_channel := next_channel st + 1 \<rparr>)"

text \<open>The call \<^verbatim>\<open>supabase.removeChannel(channel)\<close>, given how its promise will settle.\<close>

definition removeChannel :: "nat \<Rightarrow> string outcome \<Rightarrow> tracking \<Rightarrow> tracking" where
  "removeChannel channel settles st =
     st \<lparr> live_channels :=
            (case settles of
               Resolved status \<Rightarrow> filter (\<lambda>c. fst c \<noteq> channel) (live_channels st)
             | Rejected m \<Rightarrow> live_channels st),
          removeChannel_calls := removeChannel_calls st @ [channel] \<rparr>"

text \<open>The function a subscription returns, \<^verbatim>\<open>() => this.unsubscribe(channelName)\<close>, is
  its closure: the channel name.\<close>

datatype cancel_fn = Unsubscribe string

definition has_channel :: "tracking \<Rightarrow> string \<Rightarrow> bool" where
  "has_channel st channelName = (map_of (channels st) channelName \<noteq> None)"

definition set_channel :: "string \<Rightarrow> nat \<Rightarrow> tracking \<Rightarrow> tracking" where
  "set_channel channelName channel st =
     st \<lparr> channels :=
            (if has_channel st channelName
             then map (\<lambda>e. if fst e = channelName then (channelName, channel) else e) (channels st)
             else channels st @ [(channelName, channel)]) \<rparr>"

definition subscribeToDriverLocation :: "string \<Rightarrow> string \<Rightarrow> tracking \<Rightarrow> cancel_fn \<times> tracking"
  where
  "subscribeToDriverLocation tripId driverId st =
     (let channelName = ''trip:'' @ tripId @ '':driver:'' @ driverId in
      if has_channel st channelName
      then (Unsubscribe channelName,
            st \<lparr> warnings := warnings st @ [''Already subscribed to driver location''] \<rparr>)
      else
        (case open_channel
                \<lparr> topic = channelName, on_event = ''UPDATE'', on_table = ''live_locations'',
                  on_filter = ''trip_id=eq.'' @ tripId @ '',user_id=eq.'' @ driverId \<rparr> st of
           (channel, st1) \<Rightarrow> (Unsubscribe channelName, set_channel channelName channel st1)))"

definition subscribeToTripStatus :: "string \<Rightarrow> tracking \<Rightarrow> cancel_fn \<times> tracking" where
  "subscribeToTripStatus tripId st =
     (let channelName = ''trip:'' @ tripId @ '':status'' in
      if has_channel st channelName
      then (Unsubscribe channelName,
            st \<lparr> warnings := warnings st @ [''Already subscribed to trip status''] \<rparr>)
      else
        (case open_channel
                \<lparr> topic = channelName, on_event = ''UPDATE'', on_table = ''trips'',
                  on_filter = ''id=eq.'' @ tripId \<rparr> st of
           (channel, st1) \<Rightarrow> (Unsubscribe channelName, set_channel channelName channel st1)))"

definition subscribeToPassengers :: "string \<Rightarrow> tracking \<Rightarrow> cancel_fn \<times> tracking" where
  "subscribeToPassengers tripId st =
     (let channelName = ''trip:'' @ tripId @ '':passengers'' in
      if has_channel st channelName
      then (Unsubscribe channelName,
            st \<lparr> warnings := warnings st @ [''Already subscribed to passengers''] \<rparr>)
      else
        (case open_channel
                \<lparr> topic = channelName, on_event = ''*'', on_table = ''live_locations'',
                  on_filter = ''trip_id=eq.'' @ tripId \<rparr> st of
           (channel, st1) \<Rightarrow> (Unsubscribe channelName, set_channel channelName channel st1)))"

text \<open>
  \<open>unsubscribe\<close> up to its \<^verbatim>\<open>await\<close>: the map is read and, when the name has a channel,
  \<^verbatim>\<open>removeChannel\<close> is called and the call waits, under a new task number. Without a
  channel the function is done (\<open>None\<close>).
\<close>

definition unsubscribe_begin ::
  "string \<Rightarrow> string outcome \<Rightarrow> tracking \<Rightarrow> nat option \<times> tracking" where
  "unsubscribe_begin channelName settles st =
     (case map_of (channels st) channelName of
        None \<Rightarrow> (None, st)
      | Some channel \<Rightarrow>
          (let st1 = removeChannel channel settles st
           in (Some (next_task st1),
               st1 \<lparr> unsubscribing := unsubscribing st1 @ [(next_task st1, channelName, settles)],
                    next_task := next_task st1 + 1 \<rparr>)))"

text \<open>
  \<open>unsubscribe\<close> after its \<^verbatim>\<open>await\<close>, for the waiting call with the given task number: a
  rejected \<^verbatim>\<open>removeChannel\<close> rejects the call, otherwise the key is deleted. The result is
  how the promise of \<open>unsubscribe\<close> settles.
\<close>

definition unsubscribe_resume :: "nat \<Rightarrow> tracking \<Rightarrow> unit outcome \<times> tracking" where
  "unsubscribe_resume task st =
     (case map_of (unsubscribing st) task of
        None \<Rightarrow> (Resolved (), st)
      | Some (channelName, settles) \<Rightarrow>
          (let st1 = st \<lparr> unsubscribing := filter (\<lambda>t. fst t \<noteq> task) (unsubscribing st) \<rparr>
           in case settles of
                Rejected m \<Rightarrow> (Rejected m, st1)
              | Resolved status \<Rightarrow>
                  (Resolved (),
                   st1 \<lparr> channels := filter (\<lambda>e. fst e \<noteq> channelName) (channels st1) \<rparr>)))"

text \<open>\<open>unsubscribe\<close> run to completion: nothing else runs at its \<^verbatim>\<open>await\<close>.\<close>

definition unsubscribe :: "string \<Rightarrow> string outcome \<Rightarrow> tracking \<Rightarrow> unit outcome \<times> tracking" where
  "unsubscribe channelName settles st =
     (case unsubscribe_begin channelName settles st of
        (None, st1) \<Rightarrow> (Resolved (), st1)
      | (Some task, st1) \<Rightarrow> unsubscribe_resume task st1)"

text \<open>Invoking a cancel function and awaiting the promise it returns.\<close>

fun invoke_cancel :: "cancel_fn \<Rightarrow> string outcome \<Rightarrow> tracking \<Rightarrow> unit outcome \<times> tracking" where
  "invoke_cancel (Unsubscribe channelName) settles st = unsubscribe channelName settles st"

definition startLocationTracking :: "string \<Rightarrow> tracking \<Rightarrow> bool \<times> tracking" where
  "startLocationTracking tripId st =
     (if \<not> geolocation st
      then (False, st \<lparr> warnings := warnings st @ [''Geolocation not supported''] \<rparr>)
      else (True,
            st \<lparr> currentTripId := Some tripId,
                locationWatchId := Some (next_watch st),
                watches := watches st @ [(next_watch st, tripId)],
                next_watch := next_watch st + 1 \<rparr>))"

definition stopLocationTracking :: "tracking \<Rightarrow> tracking" where
  "stopLocationTracking st =
     (let st1 = (case locationWatchId st of
                   None \<Rightarrow> st
                 | Some w \<Rightarrow> st \<lparr> watches := filter (\<lambda>e. fst e \<noteq> w) (watches st),
                                  locationWatchId := None \<rparr>)
      in st1 \<lparr> currentTripId := None \<rparr>)"

text \<open>
  \<^verbatim>\<open>unsubscribeAll\<close>, run to completion: every key of the map in turn (an entry deleted while
  the map is iterated is not visited again), then the position watch. The argument says how
  \<^verbatim>\<open>removeChannel\<close> settles for each channel name; a rejection leaves the loop and rejects
  the call.
\<close>

fun unsubscribe_each ::
  "(string \<Rightarrow> string outcome) \<Rightarrow> string list \<Rightarrow> tracking \<Rightarrow> unit outcome \<times> tracking" where
  "unsubscribe_each settles [] st = (Resolved (), st)"
| "unsubscribe_each settles (channelName # rest) st =
     (case unsubscribe channelName (settles channelName) st of
        (Rejected m, st1) \<Rightarrow> (Rejected m, st1)
      | (Resolved u, st1) \<Rightarrow> unsubscribe_each settles rest st1)"

definition unsubscribeAll :: "(string \<Rightarrow> string outcome) \<Rightarrow> tracking \<Rightarrow> unit outcome \<times> tracking"
  where
  "unsubscribeAll settles st =
     (case unsubscribe_each settles (map fst (channels st)) st of
        (Rejected m, st1) \<Rightarrow> (Rejected m, st1)
      | (Resolved u, st1) \<Rightarrow> (Resolved (), stopLocationTracking st1))"

text \<open>Calls of the service, each run to completion, for statements about every sequence of
  them.\<close>

datatype service_call =
    SubscribeToDriverLocation string string
  | SubscribeToTripStatus string
  | SubscribeToPassengers string
  | InvokeCancel cancel_fn "string outcome"
  | UnsubscribeAll "string \<Rightarrow> string outcome"
  | StartLocationTracking string
  | StopLocationTracking

fun call :: "service_call \<Rightarrow> tracking \<Rightarrow> tracking" where
  "call (SubscribeToDriverLocation tripId driverId) st =
     snd (subscribeToDriverLocation tripId driverId st)"
| "call (SubscribeToTripStatus tripId) st = snd (subscribeToTripStatus tripId st)"
| "call (SubscribeToPassengers tripId) st = snd (subscribeToPassengers tripId st)"
| "call (InvokeCancel c settles) st = snd (invoke_cancel c settles st)"
| "call (UnsubscribeAll settles) st = snd (unsubscribeAll settles st)"
| "call (StartLocationTracking tripId) st = snd (startLocationTracking tripId st)"
| "call StopLocationTracking st = stopLocationTracking st"

definition calls :: "service_call list \<Rightarrow> tracking \<Rightarrow> tracking" where
  "calls cs st = fold call cs st"

text \<open>
  Steps of the service as the event loop can order them: a call run to completion, a cancel
  function invoked and not awaited (its \<open>unsubscribe\<close> runs up to the \<^verbatim>\<open>await\<close>), and a
  waiting \<open>unsubscribe\<close> that goes on.
\<close>

datatype service_step =
    Completes service_call
  | Invokes cancel_fn "string outcome"
  | Resumes nat

fun step :: "service_step \<Rightarrow> tracking \<Rightarrow> tracking" where
  "step (Completes c) st = call c st"
| "step (Invokes (Unsubscribe channelName) settles) st =
     snd (unsubscribe_begin channelName settles st)"
| "step (Resumes task) st = snd (unsubscribe_resume task st)"

definition steps :: "service_step list \<Rightarrow> tracking \<Rightarrow> tracking" where
  "steps ss st = fold step ss st"

text \<open>The channels live at the transport under one key.\<close>

definition live_on :: "tracking \<Rightarrow> string \<Rightarrow> (nat \<times> channel_info) list" where
  "live_on st key = filter (\<lambda>c. topic (snd c) = key) (live_channels st)"

subsection \<open>Geofence monitor\<close>

text \<open>
  The interval timers of the platform (the ids running, the next id to hand out), the runs
  of the interval callback that stand at their \<^verbatim>\<open>await\<close> (\<open>pending\<close>, by the number of
  the run), and two observations: how many times the callback has been started, and which
  runs invoked \<open>onArrival\<close>. The timer starts the callback whenever it fires while the
  interval is set, whether or not an earlier run still waits for its query; what follows
  the \<^verbatim>\<open>await\<close> runs when the store answers: with a rejection, with no row, or with the
  newest row. \<open>onArrival\<close> is a parameter: told how many times it was invoked before, it
  returns or throws.
\<close>

record timers =
  intervals :: "nat list"
  next_interval :: nat
  ticks :: nat
  pending :: "nat list"
  arrivals :: "nat list"

record location_row =
  row_coordinates :: "coord option"

record geofence_watch =
  gf_tripId :: string
  gf_pickupLocation :: coord
  gf_radiusMeters :: real
  gf_onArrival :: "nat \<Rightarrow> unit outcome"
  gf_intervalId :: nat

definition clearInterval :: "nat \<Rightarrow> timers \<Rightarrow> timers" where
  "clearInterval i st = st \<lparr> intervals := filter (\<lambda>j. j \<noteq> i) (intervals st) \<rparr>"

text \<open>\<^verbatim>\<open>monitorPickupZone(tripId, pickupLocation, radiusMeters = 100, onArrival)\<close>: the
  result stands for the closure of the interval callback and of the returned cancel
  function.\<close>

definition monitorPickupZone ::
  "string \<Rightarrow> coord \<Rightarrow> real option \<Rightarrow> (nat \<Rightarrow> unit outcome) \<Rightarrow> timers \<Rightarrow> geofence_watch \<times> timers"
  where
  "monitorPickupZone tripId pickupLocation radius_opt onArrival st =
     (let radiusMeters = (case radius_opt of None \<Rightarrow> 100 | Some r \<Rightarrow> r);
          intervalId = next_interval st
      in (\<lparr> gf_tripId = tripId, gf_pickupLocation = pickupLocation,
            gf_radiusMeters = radiusMeters, gf_onArrival = onArrival,
            gf_intervalId = intervalId \<rparr>,
          st \<lparr> intervals := intervals st @ [intervalId],
               next_interval := next_interval st + 1 \<rparr>))"

text \<open>The timer fires: while the interval is set, a run of the callback starts, sends its
  query and waits.\<close>

definition timer_fires :: "geofence_watch \<Rightarrow> timers \<Rightarrow> timers" where
  "timer_fires w st =
     (if gf_intervalId w \<in> set (intervals st)
      then st \<lparr> ticks := ticks st + 1, pending := pending st @ [ticks st + 1] \<rparr>
      else st)"

text \<open>
  The store answers the query of run \<open>n\<close>: the rest of the callback runs, whatever has
  happened to the interval meanwhile. \<open>onArrival\<close> is called before \<^verbatim>\<open>clearInterval\<close>, so
  when it throws the interval stays set.
\<close>

definition query_answers ::
  "geofence_watch \<Rightarrow> nat \<Rightarrow> location_row option outcome \<Rightarrow> timers \<Rightarrow> timers" where
  "query_answers w n answer st =
     (if n \<notin> set (pending st) then st
      else
        (let st1 = st \<lparr> pending := remove1 n (pending st) \<rparr> in
         case answer of
           Rejected m \<Rightarrow> st1
         | Resolved None \<Rightarrow> st1
         | Resolved (Some row) \<Rightarrow>
             (case row_coordinates row of
                None \<Rightarrow> st1
              | Some c \<Rightarrow>
                  if isWithinGeofence c (gf_pickupLocation w) (gf_radiusMeters w)
                  then (case gf_onArrival w (length (arrivals st1)) of
                          Rejected m \<Rightarrow> st1 \<lparr> arrivals := arrivals st1 @ [n] \<rparr>
                        | Resolved u \<Rightarrow>
                            clearInterval (gf_intervalId w)
                              (st1 \<lparr> arrivals := arrivals st1 @ [n] \<rparr>))
                  else st1)))"

text \<open>What the event loop can do with a monitor, in any order.\<close>

datatype monitor_event =
    TimerFires
  | QueryAnswers nat "location_row option outcome"

fun monitor_step :: "geofence_watch \<Rightarrow> monitor_event \<Rightarrow> timers \<Rightarrow> timers" where
  "monitor_step w TimerFires st = timer_fires w st"
| "monitor_step w (QueryAnswers n answer) st = query_answers w n answer st"

definition run_steps :: "geofence_watch \<Rightarrow> monitor_event list \<Rightarrow> timers \<Rightarrow> timers" where
  "run_steps w ss st = fold (monitor_step w) ss st"

text \<open>
  A tick whose query is answered before the timer fires again: the firing and, when it
  started a run, the answer to that run. \<open>run_ticks\<close> is a sequence of such ticks.
\<close>

definition tick :: "geofence_watch \<Rightarrow> location_row option outcome \<Rightarrow> timers \<Rightarrow> timers" where
  "tick w answer st =
     (if gf_intervalId w \<in> set (intervals st)
      then query_answers w (ticks st + 1) answer (timer_fires w st)
      else st)"

definition run_ticks ::
  "geofence_watch \<Rightarrow> location_row option outcome list \<Rightarrow> timers \<Rightarrow> timers" where
  "run_ticks w answers st = fold (tick w) answers st"

text \<open>The cancel function \<^verbatim>\<open>monitorPickupZone\<close> returns.\<close>

definition cancel_monitor :: "geofence_watch \<Rightarrow> timers \<Rightarrow> timers" where
  "cancel_monitor w st = clearInterval (gf_intervalId w) st"

text \<open>A tick whose fetched newest sample lies within the geofence.\<close>

definition arrived :: "geofence_watch \<Rightarrow> location_row option outcome \<Rightarrow> bool" where
  "arrived w answer =
     (case answer of
        Resolved (Some row) \<Rightarrow>
          (case row_coordinates row of
             Some c \<Rightarrow> isWithinGeofence c (gf_pickupLocation w) (gf_radiusMeters w)
           | None \<Rightarrow> False)
      | _ \<Rightarrow> False)"

subsection \<open>Observations used in the statements\<close>

text \<open>
  What a run of the service shows in the record of calls. A notification call is an SMS
  (sent through the backend route, or only logged when Twilio is not configured), a push
  send, or the call of the emergency-services endpoint.
\<close>

definition is_notification :: "event \<Rightarrow> bool" where
  "is_notification e =
     (case e of
        MockSms to message \<Rightarrow> True
      | Fetch url body \<Rightarrow> True
      | SendPushNotification participantId note \<Rightarrow> True
      | _ \<Rightarrow> False)"

text \<open>The alert record \<open>sendEmergencySOS\<close> inserts for a user, and whether the alert is
  written: the user is resolved and the store accepts the insert.\<close>

definition sos_alert ::
  "collaborators \<Rightarrow> string \<Rightarrow> coord \<Rightarrow> string option \<Rightarrow> event list \<Rightarrow> auth_user \<Rightarrow> emergency_alert"
  where
  "sos_alert env tripId location reason h user =
     \<lparr> alert_trip_id = tripId, alert_user_id = uid user, alert_location = location,
       alert_reason = reason, alert_status = ''active'',
       alert_created_at = clock env (h @ [GetUser]) \<rparr>"

definition alert_written ::
  "collaborators \<Rightarrow> string \<Rightarrow> coord \<Rightarrow> string option \<Rightarrow> event list \<Rightarrow> bool" where
  "alert_written env tripId location reason h =
     (case auth_getUser env h of
        Resolved (Some user) \<Rightarrow>
          insert_emergency_alert env (h @ [GetUser]) (sos_alert env tripId location reason h user)
            = Resolved None
      | _ \<Rightarrow> False)"

text \<open>The recipient of an SMS attempt, and the outcome of each \<open>sendSMS\<close> when the contacts
  are served in order.\<close>

definition sms_recipient :: "event \<Rightarrow> string option" where
  "sms_recipient e =
     (case e of
        MockSms to message \<Rightarrow> Some to
      | Fetch url (SendSmsBody to message) \<Rightarrow> Some to
      | _ \<Rightarrow> None)"

fun sms_outcomes ::
  "collaborators \<Rightarrow> sms_text \<Rightarrow> emergency_contact list \<Rightarrow> event list \<Rightarrow> bool list" where
  "sms_outcomes env message [] h = []"
| "sms_outcomes env message (contact # rest) h =
     (case sendSMS env (phone contact) message h of
        (result, h1) \<Rightarrow> success result # sms_outcomes env message rest h1)"

text \<open>The samples upserted and the statuses written, in order; the record a status write
  sends; a caller that sets one status after the other.\<close>

definition upserted :: "event list \<Rightarrow> live_location list" where
  "upserted h = List.map_filter (\<lambda>e. case e of UpsertLiveLocation row \<Rightarrow> Some row | _ \<Rightarrow> None) h"

definition written_statuses :: "event list \<Rightarrow> (string \<times> trip_status) list" where
  "written_statuses h =
     List.map_filter
       (\<lambda>e. case e of UpdateTrip tripId upd \<Rightarrow> Some (tripId, upd_status upd) | _ \<Rightarrow> None) h"

definition iso_of :: "js_date option \<Rightarrow> int option" where
  "iso_of eta_opt = (case eta_opt of Some (Date t) \<Rightarrow> Some t | _ \<Rightarrow> None)"

definition status_fields ::
  "collaborators \<Rightarrow> trip_status \<Rightarrow> js_date option \<Rightarrow> real option \<Rightarrow> real option \<Rightarrow> event list
     \<Rightarrow> trip_update" where
  "status_fields env status eta_opt distance_opt duration_opt h =
     \<lparr> upd_status = status, upd_eta = iso_of eta_opt, upd_distance_remaining = distance_opt,
       upd_duration_remaining = duration_opt, upd_updated_at = clock env h \<rparr>"

fun setStatuses ::
  "collaborators \<Rightarrow> string \<Rightarrow> trip_status list \<Rightarrow> event list \<Rightarrow> bool list \<times> event list" where
  "setStatuses env tripId [] h = ([], h)"
| "setStatuses env tripId (status # rest) h =
     (case updateTripStatus env tripId status None None None h of
        (r, h1) \<Rightarrow> (case setStatuses env tripId rest h1 of (rs, h2) \<Rightarrow> (r # rs, h2)))"

text \<open>
  The registry and the transport agree, and no \<open>unsubscribe\<close> stands at its \<^verbatim>\<open>await\<close>:
  keys and channel numbers are not repeated, no two live channels share a topic, the live
  channels are those of the map, and the numbers in use are below the next one.
\<close>

definition registry_ok :: "tracking \<Rightarrow> bool" where
  "registry_ok st \<longleftrightarrow>
     distinct (map fst (channels st))
     \<and> distinct (map fst (live_channels st))
     \<and> distinct (map (\<lambda>c. topic (snd c)) (live_channels st))
     \<and> (\<lambda>c. (topic (snd c), fst c)) ` set (live_channels st) = set (channels st)
     \<and> list_all (\<lambda>c. fst c < next_channel st) (live_channels st)
     \<and> unsubscribing st = []"

text \<open>Subscribing twice with the same arguments: the second call opens nothing, returns the
  same cancel function, and that function, awaited, ends the one channel of the key.\<close>

definition second_subscribe_joins_first ::
  "(tracking \<Rightarrow> cancel_fn \<times> tracking) \<Rightarrow> string \<Rightarrow> string \<Rightarrow> tracking \<Rightarrow> bool" where
  "second_subscribe_joins_first subscribe key status st =
     (case subscribe st of
        (cancel1, st1) \<Rightarrow>
          (case subscribe st1 of
             (cancel2, st2) \<Rightarrow>
               cancel2 = cancel1
               \<and> live_channels st2 = live_channels st1
               \<and> next_channel st2 = next_channel st1
               \<and> channels st2 = channels st1
               \<and> length (live_on st2 key) = 1
               \<and> live_on (snd (invoke_cancel cancel2 (Resolved status) st2)) key = []
               \<and> \<not> has_channel (snd (invoke_cancel cancel2 (Resolved status) st2)) key))"

subsection \<open>Scripted collaborators for worked examples\<close>

text \<open>
  Three emergency contacts, of whom the second cannot be reached; a push send that fails
  for one participant; an emergency-services endpoint that is offline.
\<close>

definition demo_contacts :: "emergency_contact list" where
  "demo_contacts =
     [\<lparr> contact_name = ''Huda'', phone = ''+9711'' \<rparr>,
      \<lparr> contact_name = ''Omar'', phone = ''+9712'' \<rparr>,
      \<lparr> contact_name = ''Sami'', phone = ''+9713'' \<rparr>]"

definition demo_env :: collaborators where
  "demo_env =
     \<lparr> auth_getUser = (\<lambda>h. Resolved (Some \<lparr> uid = ''rider-1'' \<rparr>)),
       upsert_live_location = (\<lambda>h row. Resolved ()),
       update_trip = (\<lambda>h tripId upd. Resolved None),
       insert_emergency_alert = (\<lambda>h alert. Resolved None),
       select_profile =
         (\<lambda>h userId. Resolved (Some \<lparr> full_name = Some ''Amal'',
                                       emergency_contacts = Some demo_contacts \<rparr>)),
       import_twilioService = (\<lambda>h. Resolved ()),
       import_integrations = (\<lambda>h. Resolved ()),
       select_trip =
         (\<lambda>h tripId. Resolved (Some \<lparr> driver_id = Some ''driver-1'',
                                      bookings = Some [\<lparr> passenger_id = Some ''rider-1'' \<rparr>,
                                                       \<lparr> passenger_id = None \<rparr>] \<rparr>)),
       sendPushNotification =
         (\<lambda>h participantId note.
            if participantId = ''rider-1'' then Rejected ''push failed'' else Resolved ()),
       fetch =
         (\<lambda>h url body.
            case body of
              SendSmsBody to message \<Rightarrow>
                if to = ''+9712'' then Rejected ''network''
                else Resolved \<lparr> ok = True,
                                json = Resolved (Some \<lparr> reply_message = None,
                                                         reply_messageSid = Some ''SM1'' \<rparr>) \<rparr>
            | EmergencyNotifyBody tripId userId location stamp \<Rightarrow> Rejected ''offline''),
       clock = (\<lambda>h. int (length h)),
       twilio_account_sid = Some ''AC1'',
       twilio_auth_token = Some ''token'',
       twilio_phone_number = None,
       twilio_enabled = True \<rparr>"

text \<open>A geofence of 100 m round a pickup point on the equator with a callback that returns,
  timers with one other interval running, and the answer of the store with a sample at
  given coordinates.\<close>

definition demo_watch :: geofence_watch where
  "demo_watch = \<lparr> gf_tripId = ''trip-1'', gf_pickupLocation = \<lparr> lat = 0, lng = 90 \<rparr>,
                  gf_radiusMeters = 100, gf_onArrival = (\<lambda>k. Resolved ()),
                  gf_intervalId = 7 \<rparr>"

definition demo_timers :: timers where
  "demo_timers = \<lparr> intervals = [3], next_interval = 7, ticks = 0, pending = [], arrivals = [] \<rparr>"

definition sample_at :: "real \<Rightarrow> real \<Rightarrow> location_row option outcome" where
  "sample_at la lo = Resolved (Some \<lparr> row_coordinates = Some \<lparr> lat = la, lng = lo \<rparr> \<rparr>)"

section \<open>Properties\<close>

subsection \<open>GeoMath\<close>

lemma haversin_sin: "haversin t = sin (t / 2) * sin (t / 2)"
  using cos_double_sin [of "t / 2"] by (simp add: haversin_def power2_eq_square)

lemma haversin_bounds: "0 \<le> haversin t" "haversin t \<le> 1"
  using cos_ge_minus_one [of t] cos_le_one [of t] by (simp_all add: haversin_def)

lemma abs_mult_le_half_squares:
  fixes x y :: real
  shows "\<bar>x * y\<bar> \<le> (x\<^sup>2 + y\<^sup>2) / 2"
proof -
  have "0 \<le> (\<bar>x\<bar> - \<bar>y\<bar>)\<^sup>2" by simp
  also have "(\<bar>x\<bar> - \<bar>y\<bar>)\<^sup>2 = x\<^sup>2 + y\<^sup>2 - 2 * \<bar>x * y\<bar>"
    by (simp add: power2_diff abs_mult)
  finally show ?thesis by simp
qed

lemma cos_sin_products_le_one:
  fixes p q :: real
  shows "\<bar>cos p * cos q\<bar> + \<bar>sin p * sin q\<bar> \<le> 1"
proof -
  have "\<bar>cos p * cos q\<bar> + \<bar>sin p * sin q\<bar>
        \<le> ((cos p)\<^sup>2 + (cos q)\<^sup>2) / 2 + ((sin p)\<^sup>2 + (sin q)\<^sup>2) / 2"
    by (intro add_mono abs_mult_le_half_squares)
  also have "\<dots> = (((sin p)\<^sup>2 + (cos p)\<^sup>2) + ((sin q)\<^sup>2 + (cos q)\<^sup>2)) / 2"
    by algebra
  also have "\<dots> = 1" by simp
  finally show ?thesis .
qed

lemma hav_arg_alt:
  "hav_arg p1 p2 (p2 - p1) dl
     = (1 + (cos p1 * cos p2) * (2 * haversin dl - 1) - sin p1 * sin p2) / 2"
proof -
  have "hav_arg p1 p2 (p2 - p1) dl = haversin (p2 - p1) + cos p1 * cos p2 * haversin dl"
    by (simp add: hav_arg_def haversin_sin mult.assoc)
  also have "\<dots> = (1 + (cos p1 * cos p2) * (2 * haversin dl - 1) - sin p1 * sin p2) / 2"
    by (simp add: haversin_def cos_diff field_simps)
  finally show ?thesis .
qed

text \<open>The argument of the square roots lies in the unit interval, so neither root is
  taken of a negative number.\<close>

lemma hav_arg_range:
  "0 \<le> hav_arg p1 p2 (p2 - p1) dl \<and> hav_arg p1 p2 (p2 - p1) dl \<le> 1"
proof -
  let ?C = "cos p1 * cos p2" and ?S = "sin p1 * sin p2" and ?t = "2 * haversin dl - 1"
  have t: "\<bar>?t\<bar> \<le> 1" using haversin_bounds [of dl] by (simp add: abs_le_iff)
  have "\<bar>?C * ?t\<bar> = \<bar>?C\<bar> * \<bar>?t\<bar>" by (rule abs_mult)
  also have "\<dots> \<le> \<bar>?C\<bar> * 1" by (rule mult_left_mono [OF t]) simp
  finally have ct: "\<bar>?C * ?t\<bar> \<le> \<bar>?C\<bar>" by simp
  have "\<bar>?C * ?t - ?S\<bar> \<le> \<bar>?C * ?t\<bar> + \<bar>?S\<bar>" by (rule abs_triangle_ineq4)
  also have "\<dots> \<le> \<bar>?C\<bar> + \<bar>?S\<bar>" using ct by simp
  also have "\<dots> \<le> 1" by (rule cos_sin_products_le_one)
  finally have b: "\<bar>?C * ?t - ?S\<bar> \<le> 1" .
  show ?thesis unfolding hav_arg_alt using b by (simp add: abs_le_iff)
qed

lemma atan2_sqrt_arcsin:
  assumes "0 \<le> a" "a \<le> 1"
  shows "atan2 (sqrt a) (sqrt (1 - a)) = arcsin (sqrt a)"
proof (cases "a = 1")
  case True
  then show ?thesis by (simp add: atan2_def)
next
  case False
  with assms have lt: "a < 1" by simp
  then have pos: "0 < sqrt (1 - a)" by simp
  have s1: "sqrt a < 1" using lt by simp
  have "0 \<le> sqrt a" using assms by simp
  then have s0: "- 1 < sqrt a" by linarith
  have "arcsin (sqrt a) = arctan (sqrt a / sqrt (1 - (sqrt a)\<^sup>2))"
    by (rule arcsin_arctan [OF s0 s1])
  also have "(sqrt a)\<^sup>2 = a" using assms by simp
  finally show ?thesis using pos by (simp add: atan2_def)
qed

text \<open>The distance both source functions compute in line is the haversine distance.\<close>

lemma inline_distance:
  "6371000 * (2 * atan2
      (sqrt (hav_arg (radians (lat p)) (radians (lat q)) (radians (lat q) - radians (lat p))
               (radians (lng q) - radians (lng p))))
      (sqrt (1 - hav_arg (radians (lat p)) (radians (lat q)) (radians (lat q) - radians (lat p))
               (radians (lng q) - radians (lng p)))))
   = distanceMeters p q"
proof -
  let ?p1 = "radians (lat p)" and ?p2 = "radians (lat q)"
  let ?dl = "radians (lng q) - radians (lng p)"
  let ?a = "hav_arg ?p1 ?p2 (?p2 - ?p1) ?dl"
  have r: "0 \<le> ?a" "?a \<le> 1" using hav_arg_range [of ?p1 ?p2 ?dl] by simp_all
  have spec: "distanceMeters p q = 2 * 6371000 * arcsin (sqrt ?a)"
    unfolding distanceMeters_def hav_arg_def haversin_sin by (simp add: mult.assoc)
  show ?thesis unfolding spec atan2_sqrt_arcsin [OF r] by simp
qed

lemma radians_diff: "((y - x) * pi) / 180 = radians y - radians x"
  by (simp add: radians_def field_simps)

lemma isWithinGeofence_distance:
  "isWithinGeofence p c r \<longleftrightarrow> distanceMeters p c \<le> r"
proof -
  have "isWithinGeofence p c r \<longleftrightarrow>
        6371000 * (2 * atan2
          (sqrt (hav_arg (radians (lat p)) (radians (lat c)) (radians (lat c) - radians (lat p))
               (radians (lng c) - radians (lng p))))
          (sqrt (1 - hav_arg (radians (lat p)) (radians (lat c)) (radians (lat c) - radians (lat p))
               (radians (lng c) - radians (lng p))))) \<le> r"
    unfolding isWithinGeofence_def Let_def radians_diff hav_arg_def radians_def ..
  then show ?thesis unfolding inline_distance .
qed

lemma calculateETA_distance:
  "calculateETA now cur dst v =
     \<lparr> eta = new_Date (of_int now
               + distanceMeters cur dst / (if v > 0 then v / 3.6 else 13.89) * 1000),
       distance = round (distanceMeters cur dst),
       duration = round (distanceMeters cur dst / (if v > 0 then v / 3.6 else 13.89)) \<rparr>"
proof -
  have "calculateETA now cur dst v =
     (let dist = 6371000 * (2 * atan2
          (sqrt (hav_arg (radians (lat cur)) (radians (lat dst))
               (radians (lat dst) - radians (lat cur)) (radians (lng dst) - radians (lng cur))))
          (sqrt (1 - hav_arg (radians (lat cur)) (radians (lat dst))
               (radians (lat dst) - radians (lat cur)) (radians (lng dst) - radians (lng cur)))));
          speed = (if v > 0 then v / 3.6 else 13.89);
          dur = dist / speed
      in \<lparr> eta = new_Date (of_int now + dur * 1000),
           distance = round dist, duration = round dur \<rparr>)"
    unfolding calculateETA_def Let_def radians_diff hav_arg_def radians_def ..
  then show ?thesis unfolding inline_distance by (simp add: Let_def)
qed

lemma distanceMeters_same: "distanceMeters c c = 0"
  by (simp add: distanceMeters_def haversin_def)

lemma distanceMeters_equator:
  assumes "0 \<le> d" "d \<le> 180"
  shows "distanceMeters \<lparr>lat = 0, lng = 0\<rparr> \<lparr>lat = 0, lng = d\<rparr> = 6371000 * radians d"
proof -
  let ?x = "radians d / 2"
  have x: "0 \<le> ?x" "?x \<le> pi / 2"
    using assms by (simp_all add: radians_def)
  have s: "0 \<le> sin ?x" using x by (intro sin_ge_zero) simp_all
  have "distanceMeters \<lparr>lat = 0, lng = 0\<rparr> \<lparr>lat = 0, lng = d\<rparr>
        = 2 * 6371000 * arcsin (sqrt (sin ?x * sin ?x))"
    by (simp add: distanceMeters_def haversin_sin radians_def)
  also have "sqrt (sin ?x * sin ?x) = sin ?x" using s by simp
  also have "arcsin (sin ?x) = ?x" using x by (intro arcsin_sin) simp_all
  finally show ?thesis by simp
qed

text \<open>
  Claim C9. For every point, centre and radius, \<open>isWithinGeofence\<close> answers true exactly
  when the haversine distance from the point to the centre is at most the radius, the
  boundary included; a centre lies within its own geofence for every radius \<open>r \<ge> 0\<close>.
\<close>

theorem isWithinGeofence_boundary_inclusive:
  "(isWithinGeofence point center r \<longleftrightarrow> distanceMeters point center \<le> r)
   \<and> (0 \<le> r \<longrightarrow> isWithinGeofence center center r)"
  by (simp add: isWithinGeofence_distance distanceMeters_same)

theorem isWithinGeofence_boundary_inclusive_witness:
  "isWithinGeofence \<lparr>lat = 25.0772, lng = 55.1398\<rparr> \<lparr>lat = 25.0772, lng = 55.1398\<rparr> 0
   \<and> isWithinGeofence \<lparr>lat = 0, lng = 0\<rparr> \<lparr>lat = 0, lng = 90\<rparr> (6371000 * (pi / 2))
   \<and> \<not> isWithinGeofence \<lparr>lat = 0, lng = 0\<rparr> \<lparr>lat = 0, lng = 90\<rparr> 100"
proof -
  have d: "distanceMeters \<lparr>lat = 0, lng = 0\<rparr> \<lparr>lat = 0, lng = 90\<rparr> = 6371000 * (pi / 2)"
    using distanceMeters_equator [of 90] by (simp add: radians_def)
  have far: "\<not> 6371000 * (pi / 2) \<le> (100::real)"
    using pi_ge_two by simp
  have same: "isWithinGeofence \<lparr>lat = 25.0772, lng = 55.1398\<rparr> \<lparr>lat = 25.0772, lng = 55.1398\<rparr> 0"
    using isWithinGeofence_boundary_inclusive
            [of "\<lparr>lat = 25.0772, lng = 55.1398\<rparr>" "\<lparr>lat = 25.0772, lng = 55.1398\<rparr>" 0]
    by blast
  have edge: "isWithinGeofence \<lparr>lat = 0, lng = 0\<rparr> \<lparr>lat = 0, lng = 90\<rparr> (6371000 * (pi / 2))"
    using isWithinGeofence_boundary_inclusive
            [of "\<lparr>lat = 0, lng = 0\<rparr>" "\<lparr>lat = 0, lng = 90\<rparr>" "6371000 * (pi / 2)"] d
    by simp
  have out: "\<not> isWithinGeofence \<lparr>lat = 0, lng = 0\<rparr> \<lparr>lat = 0, lng = 90\<rparr> 100"
    using isWithinGeofence_boundary_inclusive
            [of "\<lparr>lat = 0, lng = 0\<rparr>" "\<lparr>lat = 0, lng = 90\<rparr>" 100] d far
    by simp
  from same edge out show ?thesis by blast
qed

lemma distanceMeters_half_turn:
  "distanceMeters \<lparr>lat = 0, lng = 0\<rparr> \<lparr>lat = 0, lng = 180\<rparr> = 6371000 * pi"
  using distanceMeters_equator [of 180] by (simp add: radians_def)

text \<open>
  Claim C3 as stated takes the speed argument as metres per second and divides the distance
  by it. The source takes kilometres per hour and divides by 3.6 first: half-way round the
  equator at speed 36 the returned duration is the distance over 10, not over 36.
\<close>

theorem calculateETA_speed_counterexample:
  "duration (calculateETA 0 \<lparr>lat = 0, lng = 0\<rparr> \<lparr>lat = 0, lng = 180\<rparr> 36)
     \<noteq> round (distanceMeters \<lparr>lat = 0, lng = 0\<rparr> \<lparr>lat = 0, lng = 180\<rparr> / 36)"
proof -
  let ?d = "6371000 * pi :: real"
  have code: "duration (calculateETA 0 \<lparr>lat = 0, lng = 0\<rparr> \<lparr>lat = 0, lng = 180\<rparr> 36)
                = round (?d / 10)"
    by (simp add: calculateETA_distance distanceMeters_half_turn)
  have "?d / 36 + 1 / 2 < ?d / 10 - 1 / 2" using pi_ge_two by simp
  moreover have "of_int (round (?d / 36)) \<le> ?d / 36 + 1 / 2" by (rule of_int_round_le)
  moreover have "?d / 10 - 1 / 2 \<le> of_int (round (?d / 10))" by (rule of_int_round_ge)
  ultimately have "(of_int (round (?d / 36)) :: real) < of_int (round (?d / 10))" by linarith
  then have "round (?d / 36) \<noteq> round (?d / 10)" by auto
  then show ?thesis unfolding code distanceMeters_half_turn by simp
qed

text \<open>
  Claim C3, amended. The returned duration is the haversine distance divided by the effective
  speed and rounded to the nearest integer, where the effective speed is the argument
  divided by 3.6 (kilometres per hour turned into metres per second) when the argument is
  positive, and 13.89 m/s otherwise; the returned distance is the haversine distance
  rounded to the nearest integer; with a speed of 0 and a distance of 13,890 m the returned
  duration is 1000 s.
\<close>

theorem calculateETA_effective_speed:
  "duration (calculateETA now cur dst v)
     = round (distanceMeters cur dst / (if v > 0 then v / 3.6 else 13.89))
   \<and> distance (calculateETA now cur dst v) = round (distanceMeters cur dst)
   \<and> (v \<le> 0 \<and> distanceMeters cur dst = 13890 \<longrightarrow> duration (calculateETA now cur dst v) = 1000)"
  by (simp add: calculateETA_distance)

theorem calculateETA_effective_speed_witness:
  "distanceMeters \<lparr>lat = 0, lng = 0\<rparr> \<lparr>lat = 0, lng = 13890 * 180 / (6371000 * pi)\<rparr> = 13890
   \<and> duration (calculateETA 0 \<lparr>lat = 0, lng = 0\<rparr>
                  \<lparr>lat = 0, lng = 13890 * 180 / (6371000 * pi)\<rparr> 0) = 1000
   \<and> duration (calculateETA 0 \<lparr>lat = 0, lng = 0\<rparr> \<lparr>lat = 0, lng = 180\<rparr> 36)
       = round (6371000 * pi / 10)"
proof -
  let ?l = "13890 * 180 / (6371000 * pi) :: real"
  have "13890 * 180 \<le> 180 * (6371000 * pi)" using pi_ge_two by simp
  then have le: "?l \<le> 180" by (simp add: field_simps)
  have ge: "0 \<le> ?l" by simp
  have d: "distanceMeters \<lparr>lat = 0, lng = 0\<rparr> \<lparr>lat = 0, lng = ?l\<rparr> = 13890"
    using distanceMeters_equator [OF ge le] by (simp add: radians_def)
  show ?thesis
    using calculateETA_effective_speed [of 0 "\<lparr>lat = 0, lng = 0\<rparr>" "\<lparr>lat = 0, lng = ?l\<rparr>" 0]
          calculateETA_effective_speed [of 0 "\<lparr>lat = 0, lng = 0\<rparr>" "\<lparr>lat = 0, lng = 180\<rparr>" 36]
          d distanceMeters_half_turn
    by simp
qed

subsection \<open>Emergency SOS\<close>

lemma notifyEmergencyContacts_resolves:
  "\<exists>h1. notifyEmergencyContacts env tripId userId location h = (Resolved (), h1)"
  unfolding notifyEmergencyContacts_def
  by (cases "notifyEmergencyContacts_try env tripId userId location h")
     (auto split: outcome.splits)

lemma demo_alert_written: "alert_written demo_env tripId location reason h"
  by (simp add: alert_written_def demo_env_def)

text \<open>
  Claim C2. When the triggering identity is resolved and the insert of the alert succeeds,
  \<open>sendEmergencySOS\<close> returns true, whatever the collaborators of the fan-out answer:
  profile lookup, imports, SMS sends, trip lookup, push sends and the emergency-services
  call may all fail.
\<close>

theorem sendEmergencySOS_true_once_alert_written:
  assumes "alert_written env tripId location reason h"
  shows "fst (sendEmergencySOS env tripId location reason h) = True"
proof -
  from assms obtain user where u: "auth_getUser env h = Resolved (Some user)"
    and i: "insert_emergency_alert env (h @ [GetUser])
              (sos_alert env tripId location reason h user) = Resolved None"
    by (auto simp: alert_written_def split: outcome.splits option.splits)
  obtain h3 where n: "notifyEmergencyContacts env tripId (uid user) location
       (h @ [GetUser, InsertEmergencyAlert (sos_alert env tripId location reason h user)])
       = (Resolved (), h3)"
    using notifyEmergencyContacts_resolves by blast
  show ?thesis
    using u i n by (simp add: sendEmergencySOS_def sos_alert_def Let_def)
qed

theorem sendEmergencySOS_true_once_alert_written_witness:
  "alert_written demo_env ''trip-0001-abcd'' \<lparr> lat = 25, lng = 55 \<rparr> None []
   \<and> fst (sendEmergencySOS demo_env ''trip-0001-abcd'' \<lparr> lat = 25, lng = 55 \<rparr> None []) = True"
  using sendEmergencySOS_true_once_alert_written [OF demo_alert_written]
        demo_alert_written
  by simp

text \<open>
  Claim C1. When the triggering identity cannot be resolved or the insert of the alert
  fails, \<open>sendEmergencySOS\<close> returns false and the calls it adds to the record hold no
  notification call: no SMS, no push send, no emergency-services call.
\<close>

theorem sendEmergencySOS_false_without_alert:
  assumes "\<not> alert_written env tripId location reason h"
  shows "fst (sendEmergencySOS env tripId location reason h) = False
         \<and> (\<exists>new. snd (sendEmergencySOS env tripId location reason h) = h @ new
                   \<and> list_all (\<lambda>e. \<not> is_notification e) new)"
  using assms
  by (auto simp: sendEmergencySOS_def alert_written_def sos_alert_def Let_def is_notification_def
           split: outcome.splits option.splits)

theorem sendEmergencySOS_false_without_alert_witness:
  "\<not> alert_written (demo_env \<lparr> insert_emergency_alert := (\<lambda>h alert. Resolved (Some ''denied'')) \<rparr>)
        ''trip-0001-abcd'' \<lparr> lat = 25, lng = 55 \<rparr> None []
   \<and> fst (sendEmergencySOS
            (demo_env \<lparr> insert_emergency_alert := (\<lambda>h alert. Resolved (Some ''denied'')) \<rparr>)
            ''trip-0001-abcd'' \<lparr> lat = 25, lng = 55 \<rparr> None []) = False
   \<and> \<not> alert_written (demo_env \<lparr> auth_getUser := (\<lambda>h. Resolved None) \<rparr>)
        ''trip-0001-abcd'' \<lparr> lat = 25, lng = 55 \<rparr> None []
   \<and> fst (sendEmergencySOS (demo_env \<lparr> auth_getUser := (\<lambda>h. Resolved None) \<rparr>)
            ''trip-0001-abcd'' \<lparr> lat = 25, lng = 55 \<rparr> None []) = False"
proof -
  have a: "\<not> alert_written
              (demo_env \<lparr> insert_emergency_alert := (\<lambda>h alert. Resolved (Some ''denied'')) \<rparr>)
              ''trip-0001-abcd'' \<lparr> lat = 25, lng = 55 \<rparr> None []"
    by (simp add: alert_written_def demo_env_def)
  have b: "\<not> alert_written (demo_env \<lparr> auth_getUser := (\<lambda>h. Resolved None) \<rparr>)
              ''trip-0001-abcd'' \<lparr> lat = 25, lng = 55 \<rparr> None []"
    by (simp add: alert_written_def demo_env_def)
  show ?thesis
    using a b sendEmergencySOS_false_without_alert [OF a]
          sendEmergencySOS_false_without_alert [OF b]
    by blast
qed

subsection \<open>Emergency SMS\<close>

lemma map_filter_append: "List.map_filter f (xs @ ys) = List.map_filter f xs @ List.map_filter f ys"
  by (simp add: List.map_filter_def)

lemma sendSMS_trace:
  "\<exists>new. snd (sendSMS env to message h) = h @ new \<and> List.map_filter sms_recipient new = [to]"
  by (auto simp: sendSMS_def Let_def sms_recipient_def List.map_filter_def
           split: outcome.splits option.splits)

lemma sendEmergencySMS_loop_counts:
  "fst (sendEmergencySMS_loop env message cs a b h)
     = \<lparr> sent = a + length (filter id (sms_outcomes env message cs h)),
         failed = b + length (filter Not (sms_outcomes env message cs h)) \<rparr>"
proof (induction cs arbitrary: a b h)
  case Nil
  then show ?case by simp
next
  case (Cons c cs)
  obtain result h1 where s: "sendSMS env (phone c) message h = (result, h1)"
    by (cases "sendSMS env (phone c) message h")
  show ?case using s Cons.IH by (cases "success result") simp_all
qed

lemma sendEmergencySMS_loop_trace:
  "\<exists>new. snd (sendEmergencySMS_loop env message cs a b h) = h @ new
         \<and> List.map_filter sms_recipient new = map phone cs"
proof (induction cs arbitrary: a b h)
  case Nil
  then show ?case by (simp add: List.map_filter_def)
next
  case (Cons c cs)
  obtain result h1 where s: "sendSMS env (phone c) message h = (result, h1)"
    by (cases "sendSMS env (phone c) message h")
  from sendSMS_trace [of env "phone c" message h] s
  obtain n1 where n1: "h1 = h @ n1" "List.map_filter sms_recipient n1 = [phone c]" by auto
  from Cons.IH [of _ _ h1]
  obtain n2 where n2:
    "snd (sendEmergencySMS_loop env message (c # cs) a b h) = h1 @ n2"
    "List.map_filter sms_recipient n2 = map phone cs"
    using s by (cases "success result") auto
  show ?case
    using n1 n2 by (intro exI [of _ "n1 @ n2"]) (simp add: map_filter_append)
qed

lemma sms_outcomes_length: "length (sms_outcomes env message cs h) = length cs"
  by (induction cs arbitrary: h) (auto split: prod.splits)

lemma filter_id_Not_length: "length (filter id bs) + length (filter Not bs) = length bs"
  by (induction bs) auto

text \<open>
  Claim C6. \<open>sendEmergencySMS\<close> attempts one SMS per contact, in order, goes on after a
  send that fails, and returns the number of sends that succeeded and the number that
  failed, which add up to the number of contacts; with three contacts and one failing send
  it returns \<open>sent = 2, failed = 1\<close>.
\<close>

theorem sendEmergencySMS_counts:
  "sent (fst (sendEmergencySMS env contacts location tripId userName h))
     + failed (fst (sendEmergencySMS env contacts location tripId userName h)) = length contacts
   \<and> sent (fst (sendEmergencySMS env contacts location tripId userName h))
       = length (filter id (sms_outcomes env (EmergencyAlertText userName (take 8 tripId) location) contacts h))
   \<and> failed (fst (sendEmergencySMS env contacts location tripId userName h))
       = length (filter Not (sms_outcomes env (EmergencyAlertText userName (take 8 tripId) location) contacts h))
   \<and> (\<exists>new. snd (sendEmergencySMS env contacts location tripId userName h) = h @ new
             \<and> List.map_filter sms_recipient new = map phone contacts)
   \<and> (length contacts = 3
        \<and> length (filter Not (sms_outcomes env
              (EmergencyAlertText userName (take 8 tripId) location) contacts h)) = 1
       \<longrightarrow> fst (sendEmergencySMS env contacts location tripId userName h)
             = \<lparr> sent = 2, failed = 1 \<rparr>)"
proof -
  let ?m = "EmergencyAlertText userName (take 8 tripId) location"
  let ?o = "sms_outcomes env ?m contacts h"
  have c: "fst (sendEmergencySMS env contacts location tripId userName h)
             = \<lparr> sent = length (filter id ?o), failed = length (filter Not ?o) \<rparr>"
    by (simp add: sendEmergencySMS_def sendEmergencySMS_loop_counts)
  have l: "length (filter id ?o) + length (filter Not ?o) = length contacts"
    by (simp add: filter_id_Not_length sms_outcomes_length)
  have t: "\<exists>new. snd (sendEmergencySMS env contacts location tripId userName h) = h @ new
             \<and> List.map_filter sms_recipient new = map phone contacts"
    unfolding sendEmergencySMS_def by (rule sendEmergencySMS_loop_trace)
  show ?thesis using c l t by auto
qed

lemma demo_config: "getTwilioConfig demo_env \<noteq> None"
  by (simp add: getTwilioConfig_def demo_env_def or_empty_def Let_def)

lemma demo_sendSMS_ok:
  "to \<noteq> ''+9712'' \<Longrightarrow>
   sendSMS demo_env to message h
     = (\<lparr> success = True, messageSid = Some (SM ''SM1''), error = None \<rparr>,
        h @ [Fetch ''/api/twilio/send-sms'' (SendSmsBody to message)])"
  using demo_config by (simp add: sendSMS_def Let_def) (simp add: demo_env_def)

lemma demo_sendSMS_fail:
  "sendSMS demo_env ''+9712'' message h
     = (sms_failure (Some ''network''),
        h @ [Fetch ''/api/twilio/send-sms'' (SendSmsBody ''+9712'' message),
             ConsoleError ''SMS send failed:''])"
  using demo_config by (simp add: sendSMS_def Let_def) (simp add: demo_env_def)

lemma demo_outcomes:
  "sms_outcomes demo_env message demo_contacts h = [True, False, True]"
  by (simp add: demo_contacts_def demo_sendSMS_ok demo_sendSMS_fail sms_failure_def)

theorem sendEmergencySMS_counts_witness:
  "fst (sendEmergencySMS demo_env demo_contacts \<lparr> lat = 25, lng = 55 \<rparr> ''trip-0001-abcd'' ''Amal'' [])
     = \<lparr> sent = 2, failed = 1 \<rparr>"
proof -
  have o: "sms_outcomes demo_env
             (EmergencyAlertText ''Amal'' (take 8 ''trip-0001-abcd'') \<lparr> lat = 25, lng = 55 \<rparr>)
             demo_contacts [] = [True, False, True]"
    by (rule demo_outcomes)
  have l: "length demo_contacts = 3" by (simp add: demo_contacts_def)
  from sendEmergencySMS_counts
          [of demo_env demo_contacts "\<lparr> lat = 25, lng = 55 \<rparr>" "''trip-0001-abcd''" "''Amal''" "[]"]
  have "length demo_contacts = 3
        \<and> length (filter Not (sms_outcomes demo_env
              (EmergencyAlertText ''Amal'' (take 8 ''trip-0001-abcd'') \<lparr> lat = 25, lng = 55 \<rparr>)
              demo_contacts [])) = 1
       \<longrightarrow> fst (sendEmergencySMS demo_env demo_contacts \<lparr> lat = 25, lng = 55 \<rparr>
                   ''trip-0001-abcd'' ''Amal'' [])
             = \<lparr> sent = 2, failed = 1 \<rparr>"
    by blast
  then show ?thesis unfolding o l by simp
qed

subsection \<open>Trip status\<close>

lemma updateTripStatus_result:
  "eta_opt \<noteq> Some Invalid_Date \<Longrightarrow>
   fst (updateTripStatus env tripId status eta_opt d u h)
     \<longleftrightarrow> update_trip env h tripId (status_fields env status eta_opt d u h) = Resolved None"
  by (auto simp: updateTripStatus_def status_fields_def iso_of_def toISOString_def Let_def
           split: outcome.splits option.splits js_date.splits)

lemma updateTripStatus_trace:
  "eta_opt \<noteq> Some Invalid_Date \<Longrightarrow>
   \<exists>log. snd (updateTripStatus env tripId status eta_opt d u h)
           = h @ UpdateTrip tripId (status_fields env status eta_opt d u h) # log
         \<and> written_statuses log = []"
  by (auto simp: updateTripStatus_def status_fields_def iso_of_def toISOString_def Let_def
                 written_statuses_def List.map_filter_def
           split: outcome.splits option.splits js_date.splits)

lemma updateTripStatus_invalid_date:
  "updateTripStatus env tripId status (Some Invalid_Date) d u h
     = (False, h @ [ConsoleError ''Failed to update trip status:''])"
  by (simp add: updateTripStatus_def toISOString_def)

lemma written_statuses_append:
  "written_statuses (xs @ ys) = written_statuses xs @ written_statuses ys"
  by (simp add: written_statuses_def map_filter_append)

lemma updateTripStatus_written:
  assumes "eta_opt \<noteq> Some Invalid_Date"
  shows "written_statuses (snd (updateTripStatus env tripId status eta_opt d u h))
           = written_statuses h @ [(tripId, status)]"
proof -
  from updateTripStatus_trace [OF assms, of env tripId status d u h]
  obtain log where l: "snd (updateTripStatus env tripId status eta_opt d u h)
           = h @ UpdateTrip tripId (status_fields env status eta_opt d u h) # log"
     "written_statuses log = []" by blast
  have "written_statuses (UpdateTrip tripId (status_fields env status eta_opt d u h) # log)
          = (tripId, status) # written_statuses log"
    by (simp add: written_statuses_def List.map_filter_def status_fields_def)
  then show ?thesis using l by (simp add: written_statuses_append)
qed

lemma setStatuses_written:
  "written_statuses (snd (setStatuses env tripId ss h))
     = written_statuses h @ map (Pair tripId) ss"
proof (induction ss arbitrary: h)
  case Nil
  then show ?case by simp
next
  case (Cons s ss)
  obtain r h1 where u: "updateTripStatus env tripId s None None None h = (r, h1)"
    by (cases "updateTripStatus env tripId s None None None h")
  have w: "written_statuses h1 = written_statuses h @ [(tripId, s)]"
    using updateTripStatus_written [of None env tripId s None None h] u by simp
  show ?case using u w Cons.IH [of h1] by (auto split: prod.splits)
qed

text \<open>
  Claim C7 as stated promises the store write for every call and ties the result to the
  store alone. With an \<^verbatim>\<open>eta\<close> that is the invalid date the call returns false although
  the store would accept the write, and sends nothing.
\<close>

theorem updateTripStatus_invalid_date_counterexample:
  "update_trip demo_env [] ''trip-1''
      \<lparr> upd_status = completed, upd_eta = None, upd_distance_remaining = None,
        upd_duration_remaining = None, upd_updated_at = 0 \<rparr> = Resolved None
   \<and> updateTripStatus demo_env ''trip-1'' completed (Some Invalid_Date) None None []
       = (False, [ConsoleError ''Failed to update trip status:''])"
  by (simp add: updateTripStatus_invalid_date) (simp add: demo_env_def)

text \<open>
  Claim C7, amended. For every trip id, every status and every history of earlier writes,
  and for an \<^verbatim>\<open>eta\<close> that is left out or is a valid date, \<open>updateTripStatus\<close> sends the
  write to the store without looking at the status the trip has, and returns true exactly
  when the store reports no error and false exactly when the write fails; with an \<^verbatim>\<open>eta\<close>
  that is the invalid date it returns false and writes nothing. A caller that sets any
  sequence of statuses, in any order, has each of them written in turn.
\<close>

theorem updateTripStatus_permissive:
  "(eta_opt \<noteq> Some Invalid_Date \<longrightarrow>
      (fst (updateTripStatus env tripId status eta_opt d u h)
         \<longleftrightarrow> update_trip env h tripId (status_fields env status eta_opt d u h) = Resolved None)
      \<and> (\<exists>log. snd (updateTripStatus env tripId status eta_opt d u h)
                 = h @ UpdateTrip tripId (status_fields env status eta_opt d u h) # log
               \<and> written_statuses log = []))
   \<and> (eta_opt = Some Invalid_Date \<longrightarrow>
        \<not> fst (updateTripStatus env tripId status eta_opt d u h)
        \<and> written_statuses (snd (updateTripStatus env tripId status eta_opt d u h))
            = written_statuses h)
   \<and> written_statuses (snd (setStatuses env tripId ss h))
       = written_statuses h @ map (Pair tripId) ss"
proof -
  have inv: "written_statuses (h @ [ConsoleError ''Failed to update trip status:''])
               = written_statuses h"
    by (simp add: written_statuses_append) (simp add: written_statuses_def List.map_filter_def)
  show ?thesis
    using updateTripStatus_result [of eta_opt env tripId status d u h]
          updateTripStatus_trace [of eta_opt env tripId status d u h]
          setStatuses_written [of env tripId ss h] inv
    by (auto simp: updateTripStatus_invalid_date)
qed

theorem updateTripStatus_permissive_witness:
  "fst (updateTripStatus demo_env ''trip-1'' waiting (Some (Date 1700000000000)) None None
          [UpdateTrip ''trip-1'' (status_fields demo_env completed None None None [])])
   \<and> \<not> fst (updateTripStatus
               (demo_env \<lparr> update_trip := (\<lambda>h tripId upd. Resolved (Some ''timeout'')) \<rparr>)
               ''trip-1'' arriving None None None [])
   \<and> \<not> fst (updateTripStatus demo_env ''trip-1'' completed (Some Invalid_Date) None None [])
   \<and> written_statuses (snd (setStatuses demo_env ''trip-1'' [waiting, completed, arriving, cancelled] []))
       = [(''trip-1'', waiting), (''trip-1'', completed), (''trip-1'', arriving),
          (''trip-1'', cancelled)]"
proof -
  have a: "update_trip demo_env h tripId upd = Resolved None" for h tripId upd
    by (simp add: demo_env_def)
  have b: "update_trip (demo_env \<lparr> update_trip := (\<lambda>h tripId upd. Resolved (Some ''timeout'')) \<rparr>)
             h tripId upd \<noteq> Resolved None" for h tripId upd
    by simp
  have w: "written_statuses [] = []" by (simp add: written_statuses_def List.map_filter_def)
  note t1 = updateTripStatus_permissive
            [of "Some (Date 1700000000000)" demo_env "''trip-1''" waiting None None
                "[UpdateTrip ''trip-1'' (status_fields demo_env completed None None None [])]"
                "[]", THEN conjunct1, rule_format, THEN conjunct1]
  note t2 = updateTripStatus_permissive
            [of None "demo_env \<lparr> update_trip := (\<lambda>h tripId upd. Resolved (Some ''timeout'')) \<rparr>"
                "''trip-1''" arriving None None "[]" "[]", THEN conjunct1, rule_format,
             THEN conjunct1]
  note t3 = updateTripStatus_permissive
            [of "Some Invalid_Date" demo_env "''trip-1''" completed None None "[]" "[]",
             THEN conjunct2, THEN conjunct1, rule_format, THEN conjunct1]
  note t4 = updateTripStatus_permissive
            [of None demo_env "''trip-1''" waiting None None "[]"
                "[waiting, completed, arriving, cancelled]", THEN conjunct2, THEN conjunct2]
  have c1: "fst (updateTripStatus demo_env ''trip-1'' waiting (Some (Date 1700000000000)) None None
          [UpdateTrip ''trip-1'' (status_fields demo_env completed None None None [])])"
    using t1 a by simp
  have c2: "\<not> fst (updateTripStatus
               (demo_env \<lparr> update_trip := (\<lambda>h tripId upd. Resolved (Some ''timeout'')) \<rparr>)
               ''trip-1'' arriving None None None [])"
    using t2 b by simp
  have c3: "\<not> fst (updateTripStatus demo_env ''trip-1'' completed (Some Invalid_Date) None None [])"
    using t3 by simp
  have c4: "written_statuses (snd (setStatuses demo_env ''trip-1'' [waiting, completed, arriving, cancelled] []))
       = [(''trip-1'', waiting), (''trip-1'', completed), (''trip-1'', arriving),
          (''trip-1'', cancelled)]"
    using t4 w by simp
  from c1 c2 c3 c4 show ?thesis by blast
qed

subsection \<open>Location publishing\<close>

lemma upserted_append: "upserted (xs @ ys) = upserted xs @ upserted ys"
  by (simp add: upserted_def map_filter_append)

text \<open>
  Claim C10 as stated has the sample upserted, and no error raised, whenever no
  authenticated user can be resolved. The user lookup is awaited before the \<^verbatim>\<open>try\<close>
  block: when it rejects, the call rejects and nothing is upserted.
\<close>

theorem broadcastLocation_rejected_lookup_counterexample:
  "broadcastLocation (demo_env \<lparr> auth_getUser := (\<lambda>h. Rejected ''offline'') \<rparr>) ''trip-1''
      \<lparr> latitude = 25, longitude = 55, heading = None, speed = None, accuracy = 5 \<rparr> []
     = (Rejected ''offline'', [GetUser])"
  by (simp add: broadcastLocation_def)

text \<open>
  Claim C10, amended. Whenever the user lookup resolves, \<open>broadcastLocation\<close> upserts the
  sample and raises nothing: when the lookup resolves without a user the sample carries the
  empty user id, and a heading or speed that is absent is recorded as 0, so that a fix
  without heading (or speed) and a fix with heading (or speed) 0 give the same run.
\<close>

theorem broadcastLocation_defaults:
  "(auth_getUser env h = Resolved user \<longrightarrow>
      fst (broadcastLocation env tripId position h) = Resolved ()
      \<and> upserted (snd (broadcastLocation env tripId position h))
          = upserted h @
            [\<lparr> loc_trip_id = tripId,
               loc_user_id = (case user of None \<Rightarrow> [] | Some u \<Rightarrow> uid u),
               loc_coordinates = \<lparr> lat = latitude position, lng = longitude position \<rparr>,
               loc_heading = (case heading position of None \<Rightarrow> 0 | Some x \<Rightarrow> x),
               loc_speed = (case speed position of None \<Rightarrow> 0 | Some x \<Rightarrow> x),
               loc_accuracy = accuracy position,
               loc_updated_at = clock env (h @ [GetUser]) \<rparr>])
   \<and> broadcastLocation env tripId (position \<lparr> heading := None \<rparr>) h
       = broadcastLocation env tripId (position \<lparr> heading := Some 0 \<rparr>) h
   \<and> broadcastLocation env tripId (position \<lparr> speed := None \<rparr>) h
       = broadcastLocation env tripId (position \<lparr> speed := Some 0 \<rparr>) h"
  by (auto simp: broadcastLocation_def Let_def or_zero_def upserted_def List.map_filter_def
           split: outcome.splits option.splits)

theorem broadcastLocation_defaults_witness:
  "fst (broadcastLocation (demo_env \<lparr> auth_getUser := (\<lambda>h. Resolved None) \<rparr>) ''trip-1''
          \<lparr> latitude = 25, longitude = 55, heading = None, speed = None, accuracy = 5 \<rparr> [])
     = Resolved ()
   \<and> upserted (snd (broadcastLocation (demo_env \<lparr> auth_getUser := (\<lambda>h. Resolved None) \<rparr>)
          ''trip-1''
          \<lparr> latitude = 25, longitude = 55, heading = None, speed = None, accuracy = 5 \<rparr> []))
     = [\<lparr> loc_trip_id = ''trip-1'', loc_user_id = [],
          loc_coordinates = \<lparr> lat = 25, lng = 55 \<rparr>, loc_heading = 0, loc_speed = 0,
          loc_accuracy = 5, loc_updated_at = 1 \<rparr>]"
proof -
  have u: "auth_getUser (demo_env \<lparr> auth_getUser := (\<lambda>h. Resolved None) \<rparr>) [] = Resolved None"
    by simp
  have c: "clock (demo_env \<lparr> auth_getUser := (\<lambda>h. Resolved None) \<rparr>) [GetUser] = 1"
    by (simp add: demo_env_def)
  have e: "upserted [] = []" by (simp add: upserted_def List.map_filter_def)
  note d = broadcastLocation_defaults
            [of "demo_env \<lparr> auth_getUser := (\<lambda>h. Resolved None) \<rparr>" "[]" None "''trip-1''"
                "\<lparr> latitude = 25, longitude = 55, heading = None, speed = None, accuracy = 5 \<rparr>",
             THEN conjunct1, rule_format, OF u]
  show ?thesis using d c e by simp
qed

subsection \<open>Geofence monitor\<close>

lemma tick_cleared: "gf_intervalId w \<notin> set (intervals st) \<Longrightarrow> tick w a st = st"
  by (simp add: tick_def)

lemma tick_not_arrived:
  "gf_intervalId w \<in> set (intervals st) \<Longrightarrow> \<not> arrived w a \<Longrightarrow>
   intervals (tick w a st) = intervals st
   \<and> ticks (tick w a st) = ticks st + 1
   \<and> arrivals (tick w a st) = arrivals st"
  by (auto simp: tick_def timer_fires_def query_answers_def arrived_def Let_def
           split: outcome.splits option.splits)

lemma tick_arrived:
  "gf_intervalId w \<in> set (intervals st) \<Longrightarrow> arrived w a \<Longrightarrow>
   gf_onArrival w (length (arrivals st)) = Resolved () \<Longrightarrow>
   intervals (tick w a st) = filter (\<lambda>j. j \<noteq> gf_intervalId w) (intervals st)
   \<and> ticks (tick w a st) = ticks st + 1
   \<and> arrivals (tick w a st) = arrivals st @ [ticks st + 1]"
  by (auto simp: tick_def timer_fires_def query_answers_def arrived_def clearInterval_def Let_def
           split: outcome.splits option.splits)

lemma run_ticks_Cons: "run_ticks w (a # answers) st = run_ticks w answers (tick w a st)"
  by (simp add: run_ticks_def)

lemma run_ticks_cleared:
  "gf_intervalId w \<notin> set (intervals st) \<Longrightarrow> run_ticks w answers st = st"
  unfolding run_ticks_def by (induction answers) (simp_all add: tick_cleared)

lemma run_ticks_none_arrived:
  "gf_intervalId w \<in> set (intervals st) \<Longrightarrow> \<forall>a\<in>set answers. \<not> arrived w a \<Longrightarrow>
   intervals (run_ticks w answers st) = intervals st
   \<and> ticks (run_ticks w answers st) = ticks st + length answers
   \<and> arrivals (run_ticks w answers st) = arrivals st"
proof (induction answers arbitrary: st)
  case Nil
  then show ?case by (simp add: run_ticks_def)
next
  case (Cons a answers)
  then have t: "intervals (tick w a st) = intervals st" "ticks (tick w a st) = ticks st + 1"
      "arrivals (tick w a st) = arrivals st"
    using tick_not_arrived [of w st a] by simp_all
  have "gf_intervalId w \<in> set (intervals (tick w a st))" using Cons.prems t by simp
  moreover have "\<forall>a\<in>set answers. \<not> arrived w a" using Cons.prems by simp
  ultimately show ?case using Cons.IH [of "tick w a st"] t by (simp add: run_ticks_Cons)
qed

lemma run_ticks_first_arrival:
  assumes "gf_intervalId w \<in> set (intervals st)" "\<exists>a\<in>set answers. arrived w a"
    and "\<forall>k. gf_onArrival w k = Resolved ()"
  shows "gf_intervalId w \<notin> set (intervals (run_ticks w answers st))
         \<and> ticks (run_ticks w answers st)
             = ticks st + length (takeWhile (\<lambda>a. \<not> arrived w a) answers) + 1
         \<and> arrivals (run_ticks w answers st)
             = arrivals st @ [ticks st + length (takeWhile (\<lambda>a. \<not> arrived w a) answers) + 1]"
  using assms(1,2)
proof (induction answers arbitrary: st)
  case Nil
  then show ?case by simp
next
  case (Cons a answers)
  show ?case
  proof (cases "arrived w a")
    case True
    have t: "intervals (tick w a st) = filter (\<lambda>j. j \<noteq> gf_intervalId w) (intervals st)"
        "ticks (tick w a st) = ticks st + 1" "arrivals (tick w a st) = arrivals st @ [ticks st + 1]"
      using tick_arrived [of w st a] Cons.prems(1) True assms(3) by simp_all
    have c: "gf_intervalId w \<notin> set (intervals (tick w a st))" using t by simp
    show ?thesis using True t c by (simp add: run_ticks_Cons run_ticks_cleared [OF c])
  next
    case False
    have t: "intervals (tick w a st) = intervals st" "ticks (tick w a st) = ticks st + 1"
        "arrivals (tick w a st) = arrivals st"
      using tick_not_arrived [of w st a] Cons.prems(1) False by simp_all
    have act: "gf_intervalId w \<in> set (intervals (tick w a st))" using Cons.prems(1) t by simp
    have ex: "\<exists>a\<in>set answers. arrived w a" using Cons.prems(2) False by auto
    show ?thesis using False t Cons.IH [OF act ex] by (simp add: run_ticks_Cons)
  qed
qed

lemma monitorPickupZone_active:
  "monitorPickupZone tripId pickup radius_opt onArrival st = (w, st1) \<Longrightarrow>
   gf_intervalId w \<in> set (intervals st1) \<and> ticks st1 = ticks st \<and> arrivals st1 = arrivals st
   \<and> gf_onArrival w = onArrival"
  by (auto simp: monitorPickupZone_def Let_def)

lemma demo_arrived_at_pickup: "arrived demo_watch (sample_at 0 90)"
  by (simp add: arrived_def sample_at_def demo_watch_def isWithinGeofence_distance
                distanceMeters_same)

lemma demo_not_arrived_far: "\<not> arrived demo_watch (sample_at 0 0)"
proof -
  have d: "distanceMeters \<lparr>lat = 0, lng = 0\<rparr> \<lparr>lat = 0, lng = 90\<rparr> = 6371000 * (pi / 2)"
    using distanceMeters_equator [of 90] by (simp add: radians_def)
  have "\<not> 6371000 * (pi / 2) \<le> (100::real)" using pi_ge_two by simp
  then show ?thesis
    by (simp add: arrived_def sample_at_def demo_watch_def isWithinGeofence_distance d)
qed

lemma demo_monitor:
  "monitorPickupZone ''trip-1'' \<lparr> lat = 0, lng = 90 \<rparr> None (\<lambda>k. Resolved ()) demo_timers
     = (demo_watch, demo_timers \<lparr> intervals := [3, 7], next_interval := 8 \<rparr>)"
  by (simp add: monitorPickupZone_def demo_watch_def demo_timers_def Let_def)

lemma demo_within_pickup:
  "isWithinGeofence \<lparr>lat = 0, lng = 90\<rparr> (gf_pickupLocation demo_watch) (gf_radiusMeters demo_watch)"
  by (simp add: demo_watch_def isWithinGeofence_distance distanceMeters_same)

text \<open>
  Claim C5 as stated has \<open>onArrival\<close> invoked exactly once for every sequence of ticks. The
  timer fires on its own schedule: when it fires a second time while the query of the first
  run is still awaited, and both queries then find the driver inside the geofence, each run
  invokes \<open>onArrival\<close>. And an \<open>onArrival\<close> that throws leaves the interval set, so the next
  tick inside the geofence invokes it again.
\<close>

theorem monitorPickupZone_overlap_counterexample:
  "arrivals (run_steps demo_watch
               [TimerFires, TimerFires,
                QueryAnswers 1 (sample_at 0 90), QueryAnswers 2 (sample_at 0 90)]
               (demo_timers \<lparr> intervals := [3, 7], next_interval := 8 \<rparr>)) = [1, 2]
   \<and> arrivals (run_ticks (demo_watch \<lparr> gf_onArrival := (\<lambda>k. Rejected ''handler failed'') \<rparr>)
               [sample_at 0 90, sample_at 0 90]
               (demo_timers \<lparr> intervals := [3, 7], next_interval := 8 \<rparr>)) = [1, 2]"
proof -
  have i: "gf_intervalId demo_watch = 7" "gf_onArrival demo_watch = (\<lambda>k. Resolved ())"
    by (simp_all add: demo_watch_def)
  have a: "arrivals (run_steps demo_watch
               [TimerFires, TimerFires,
                QueryAnswers 1 (sample_at 0 90), QueryAnswers 2 (sample_at 0 90)]
               (demo_timers \<lparr> intervals := [3, 7], next_interval := 8 \<rparr>)) = [1, 2]"
    using demo_within_pickup
    by (simp add: run_steps_def timer_fires_def query_answers_def clearInterval_def
                  sample_at_def demo_timers_def i Let_def)
  have b: "arrivals (run_ticks (demo_watch \<lparr> gf_onArrival := (\<lambda>k. Rejected ''handler failed'') \<rparr>)
               [sample_at 0 90, sample_at 0 90]
               (demo_timers \<lparr> intervals := [3, 7], next_interval := 8 \<rparr>)) = [1, 2]"
    using demo_within_pickup
    by (simp add: run_ticks_def tick_def timer_fires_def query_answers_def clearInterval_def
                  sample_at_def demo_timers_def i Let_def)
  from a b show ?thesis by (rule conjI)
qed

text \<open>
  Claim C5, amended. For every sequence of ticks in which the query of each tick is answered
  before the timer fires again, and with an \<open>onArrival\<close> that returns, \<open>onArrival\<close> is
  invoked exactly once, at the first tick whose sample lies within the geofence, and that
  tick is the last to run; when no tick arrives, \<open>onArrival\<close> is not invoked and every tick
  runs. A tick whose query is rejected or finds no row invokes nothing and leaves the
  interval set.
\<close>

theorem monitorPickupZone_arrival_once:
  assumes "monitorPickupZone tripId pickup radius_opt onArrival st = (w, st1)"
    and "\<forall>k. onArrival k = Resolved ()"
  shows "(if \<exists>a\<in>set answers. arrived w a
          then arrivals (run_ticks w answers st1)
                 = arrivals st @ [ticks st + length (takeWhile (\<lambda>a. \<not> arrived w a) answers) + 1]
               \<and> ticks (run_ticks w answers st1)
                 = ticks st + length (takeWhile (\<lambda>a. \<not> arrived w a) answers) + 1
               \<and> gf_intervalId w \<notin> set (intervals (run_ticks w answers st1))
          else arrivals (run_ticks w answers st1) = arrivals st
               \<and> ticks (run_ticks w answers st1) = ticks st + length answers
               \<and> gf_intervalId w \<in> set (intervals (run_ticks w answers st1)))
         \<and> (\<forall>s a. gf_intervalId w \<in> set (intervals s) \<and> (a = Resolved None \<or> (\<exists>m. a = Rejected m))
               \<longrightarrow> arrivals (tick w a s) = arrivals s
                   \<and> intervals (tick w a s) = intervals s
                   \<and> ticks (tick w a s) = ticks s + 1)"
proof -
  note m = monitorPickupZone_active [OF assms(1)]
  have ret: "\<forall>k. gf_onArrival w k = Resolved ()" using m assms(2) by simp
  have skip: "\<forall>s a. gf_intervalId w \<in> set (intervals s) \<and> (a = Resolved None \<or> (\<exists>m. a = Rejected m))
               \<longrightarrow> arrivals (tick w a s) = arrivals s
                   \<and> intervals (tick w a s) = intervals s
                   \<and> ticks (tick w a s) = ticks s + 1"
    using tick_not_arrived [of w] by (auto simp: arrived_def)
  show ?thesis
  proof (cases "\<exists>a\<in>set answers. arrived w a")
    case True
    have act: "gf_intervalId w \<in> set (intervals st1)" using m by simp
    show ?thesis
      using True m skip run_ticks_first_arrival [OF act True ret] by simp
  next
    case False
    then have n: "\<forall>a\<in>set answers. \<not> arrived w a" by simp
    have act: "gf_intervalId w \<in> set (intervals st1)" using m by simp
    show ?thesis
      using False m skip run_ticks_none_arrived [OF act n] by simp
  qed
qed

theorem monitorPickupZone_arrival_once_witness:
  "arrivals (run_ticks demo_watch
               [sample_at 0 0, Rejected ''timeout'', sample_at 0 90, sample_at 0 90]
               (demo_timers \<lparr> intervals := [3, 7], next_interval := 8 \<rparr>)) = [3]
   \<and> ticks (run_ticks demo_watch
               [sample_at 0 0, Rejected ''timeout'', sample_at 0 90, sample_at 0 90]
               (demo_timers \<lparr> intervals := [3, 7], next_interval := 8 \<rparr>)) = 3"
proof -
  have r: "\<not> arrived demo_watch (Rejected ''timeout'')" by (simp add: arrived_def)
  have t: "ticks demo_timers = 0" "arrivals demo_timers = []" by (simp_all add: demo_timers_def)
  have o: "\<forall>k. (\<lambda>k::nat. Resolved ()) k = (Resolved () :: unit outcome)" by simp
  note c = monitorPickupZone_arrival_once [OF demo_monitor o,
            of "[sample_at 0 0, Rejected ''timeout'', sample_at 0 90, sample_at 0 90]",
            THEN conjunct1]
  show ?thesis
    using c by (simp add: demo_arrived_at_pickup demo_not_arrived_far r t)
qed

subsection \<open>Cancel functions\<close>

lemma map_of_filter_key: "map_of (filter (\<lambda>e. fst e \<noteq> k) xs) k = None"
  by (induction xs) auto

text \<open>\<open>unsubscribe\<close> run to completion while no other \<open>unsubscribe\<close> waits.\<close>

lemma unsubscribe_complete:
  assumes "unsubscribing st = []"
  shows "unsubscribe k settles st =
     (case map_of (channels st) k of
        None \<Rightarrow> (Resolved (), st)
      | Some channel \<Rightarrow>
          (case settles of
             Rejected m \<Rightarrow>
               (Rejected m,
                st \<lparr> removeChannel_calls := removeChannel_calls st @ [channel],
                     next_task := next_task st + 1 \<rparr>)
           | Resolved status \<Rightarrow>
               (Resolved (),
                st \<lparr> channels := filter (\<lambda>e. fst e \<noteq> k) (channels st),
                     live_channels := filter (\<lambda>c. fst c \<noteq> channel) (live_channels st),
                     removeChannel_calls := removeChannel_calls st @ [channel],
                     next_task := next_task st + 1 \<rparr>)))"
  using assms
  by (auto simp: unsubscribe_def unsubscribe_begin_def unsubscribe_resume_def removeChannel_def
                 Let_def split: option.splits outcome.splits)

lemma unsubscribe_absent:
  "map_of (channels st) k = None \<Longrightarrow> unsubscribe k settles st = (Resolved (), st)"
  by (simp add: unsubscribe_def unsubscribe_begin_def)

lemma unsubscribe_again:
  assumes "unsubscribing st = []"
  shows "fst (unsubscribe k (Resolved status) st) = Resolved ()
         \<and> unsubscribe k settles (snd (unsubscribe k (Resolved status) st))
             = (Resolved (), snd (unsubscribe k (Resolved status) st))"
proof (cases "map_of (channels st) k")
  case None
  then show ?thesis by (simp add: unsubscribe_absent)
next
  case (Some channel)
  then show ?thesis
    by (simp add: unsubscribe_complete [OF assms] unsubscribe_absent map_of_filter_key)
qed

lemma stopLocationTracking_twice:
  "stopLocationTracking (stopLocationTracking s) = stopLocationTracking s"
  by (cases "locationWatchId s") (simp_all add: stopLocationTracking_def Let_def)

lemma clearInterval_twice: "clearInterval i (clearInterval i t) = clearInterval i t"
  by (simp add: clearInterval_def)

lemma clearInterval_cleared: "i \<notin> set (intervals t) \<Longrightarrow> clearInterval i t = t"
proof -
  assume "i \<notin> set (intervals t)"
  then have "filter (\<lambda>j. j \<noteq> i) (intervals t) = intervals t"
    by (intro filter_True) auto
  then show ?thesis by (simp add: clearInterval_def)
qed

text \<open>
  Claim C8 as stated makes every second invocation of a cancel handle a no-op. The cancel
  function of a subscription holds the channel name, not the channel: invoked a second
  time after the key has been subscribed again, it ends the new channel. And the function
  returns before its \<open>unsubscribe\<close> is done: invoked twice in a row without awaiting, the
  second invocation still finds the key and calls \<^verbatim>\<open>removeChannel\<close> again.
\<close>

theorem stale_cancel_counterexample:
  "fst (subscribeToTripStatus ''t1'' (new_service True)) = Unsubscribe ''trip:t1:status''
   \<and> map fst (live_on (calls [SubscribeToTripStatus ''t1'',
                               InvokeCancel (Unsubscribe ''trip:t1:status'') (Resolved ''ok''),
                               SubscribeToTripStatus ''t1''] (new_service True))
                ''trip:t1:status'') = [1]
   \<and> live_on (calls [SubscribeToTripStatus ''t1'',
                     InvokeCancel (Unsubscribe ''trip:t1:status'') (Resolved ''ok''),
                     SubscribeToTripStatus ''t1'',
                     InvokeCancel (Unsubscribe ''trip:t1:status'') (Resolved ''ok'')]
                (new_service True))
        ''trip:t1:status'' = []
   \<and> removeChannel_calls
        (steps [Completes (SubscribeToTripStatus ''t1''),
                Invokes (Unsubscribe ''trip:t1:status'') (Resolved ''ok''),
                Invokes (Unsubscribe ''trip:t1:status'') (Resolved ''ok'')]
           (new_service True)) = [0, 0]"
  by code_simp

text \<open>
  Claim C8, amended. A cancel handle invoked a second time directly after its first
  invocation has run to completion changes nothing, calls no collaborator and neither
  throws nor rejects: for the cancel function of a channel subscription when no other
  \<open>unsubscribe\<close> was waiting and \<^verbatim>\<open>removeChannel\<close> resolved in the first invocation (which
  then resolves too), for \<open>stopLocationTracking\<close>, and for the cancel function of
  \<open>monitorPickupZone\<close>; the last is also a no-op whenever the interval is no longer set, as
  after the monitor has cancelled itself on arrival. \<open>stopLocationTracking\<close> and the cancel
  function of the monitor are synchronous and call only \<^verbatim>\<open>clearWatch\<close> and
  \<^verbatim>\<open>clearInterval\<close>, which do not throw, so they have no failing result.
\<close>

theorem cancel_twice_is_noop:
  "(unsubscribing s = [] \<longrightarrow>
      fst (invoke_cancel c (Resolved status) s) = Resolved ()
      \<and> invoke_cancel c settles (snd (invoke_cancel c (Resolved status) s))
          = (Resolved (), snd (invoke_cancel c (Resolved status) s)))
   \<and> stopLocationTracking (stopLocationTracking s) = stopLocationTracking s
   \<and> cancel_monitor w (cancel_monitor w t) = cancel_monitor w t
   \<and> (gf_intervalId w \<notin> set (intervals t) \<longrightarrow> cancel_monitor w t = t)
   \<and> (gf_intervalId w \<in> set (intervals t) \<and> (\<exists>a\<in>set answers. arrived w a)
        \<and> (\<forall>k. gf_onArrival w k = Resolved ())
        \<longrightarrow> cancel_monitor w (run_ticks w answers t) = run_ticks w answers t)"
proof -
  have a: "unsubscribing s = [] \<longrightarrow>
      fst (invoke_cancel c (Resolved status) s) = Resolved ()
      \<and> invoke_cancel c settles (snd (invoke_cancel c (Resolved status) s))
          = (Resolved (), snd (invoke_cancel c (Resolved status) s))"
    by (cases c) (simp add: unsubscribe_again)
  have e: "gf_intervalId w \<in> set (intervals t) \<and> (\<exists>a\<in>set answers. arrived w a)
        \<and> (\<forall>k. gf_onArrival w k = Resolved ())
        \<longrightarrow> cancel_monitor w (run_ticks w answers t) = run_ticks w answers t"
    using run_ticks_first_arrival [of w t answers]
    by (auto simp: cancel_monitor_def intro: clearInterval_cleared)
  show ?thesis
    using a e
    by (simp add: stopLocationTracking_twice cancel_monitor_def clearInterval_twice
                  clearInterval_cleared)
qed

theorem cancel_twice_is_noop_witness:
  "cancel_monitor demo_watch demo_timers = demo_timers
   \<and> cancel_monitor demo_watch
       (run_ticks demo_watch [sample_at 0 0, sample_at 0 90]
          (demo_timers \<lparr> intervals := [3, 7], next_interval := 8 \<rparr>))
     = run_ticks demo_watch [sample_at 0 0, sample_at 0 90]
          (demo_timers \<lparr> intervals := [3, 7], next_interval := 8 \<rparr>)
   \<and> invoke_cancel (Unsubscribe ''trip:t1:status'') (Rejected ''late'')
       (snd (invoke_cancel (Unsubscribe ''trip:t1:status'') (Resolved ''ok'')
          (snd (subscribeToTripStatus ''t1'' (new_service True)))))
     = (Resolved (),
        snd (invoke_cancel (Unsubscribe ''trip:t1:status'') (Resolved ''ok'')
          (snd (subscribeToTripStatus ''t1'' (new_service True)))))"
proof -
  have i: "gf_intervalId demo_watch \<notin> set (intervals demo_timers)"
    by (simp add: demo_watch_def demo_timers_def)
  have j: "gf_intervalId demo_watch
             \<in> set (intervals (demo_timers \<lparr> intervals := [3, 7], next_interval := 8 \<rparr>))"
    by (simp add: demo_watch_def)
  have k: "\<exists>a\<in>set [sample_at 0 0, sample_at 0 90]. arrived demo_watch a"
    using demo_arrived_at_pickup by simp
  have o: "\<forall>k. gf_onArrival demo_watch k = Resolved ()" by (simp add: demo_watch_def)
  have u: "unsubscribing (snd (subscribeToTripStatus ''t1'' (new_service True))) = []"
    by (simp add: subscribeToTripStatus_def new_service_def has_channel_def open_channel_def
                  set_channel_def Let_def)
  show ?thesis
    using cancel_twice_is_noop
            [of "snd (subscribeToTripStatus ''t1'' (new_service True))"
                "Unsubscribe ''trip:t1:status''" "''ok''" "Rejected ''late''"
                demo_watch demo_timers "[]"]
          cancel_twice_is_noop
            [of "snd (subscribeToTripStatus ''t1'' (new_service True))"
                "Unsubscribe ''trip:t1:status''" "''ok''" "Rejected ''late''"
                demo_watch "demo_timers \<lparr> intervals := [3, 7], next_interval := 8 \<rparr>"
                "[sample_at 0 0, sample_at 0 90]"]
          i j k o u
    by blast
qed

subsection \<open>Channel registry\<close>

lemma has_channel_keys: "has_channel st k \<longleftrightarrow> k \<in> fst ` set (channels st)"
  by (simp add: has_channel_def map_of_eq_None_iff)

lemma registry_ok_new: "registry_ok (new_service geo)"
  by (simp add: registry_ok_def new_service_def)

lemma registry_ok_warnings [simp]:
  "registry_ok (st \<lparr> warnings := ws \<rparr>) = registry_ok st"
  by (simp add: registry_ok_def)

lemma registry_ok_open:
  assumes ok: "registry_ok st" and new: "\<not> has_channel st name" and t: "topic info = name"
  shows "registry_ok (set_channel name (fst (open_channel info st)) (snd (open_channel info st)))"
proof -
  let ?n = "next_channel st"
  have keys: "name \<notin> fst ` set (channels st)" using new by (simp add: has_channel_keys)
  have img: "(\<lambda>c. (topic (snd c), fst c)) ` set (live_channels st) = set (channels st)"
    using ok by (simp add: registry_ok_def)
  have ids: "\<forall>c\<in>set (live_channels st). fst c < ?n"
    using ok by (simp add: registry_ok_def list_all_iff)
  have fresh_id: "?n \<notin> fst ` set (live_channels st)" using ids by auto
  have fresh_topic: "name \<notin> (\<lambda>c. topic (snd c)) ` set (live_channels st)"
  proof
    assume "name \<in> (\<lambda>c. topic (snd c)) ` set (live_channels st)"
    then obtain c where c: "c \<in> set (live_channels st)" "topic (snd c) = name" by auto
    then have "(name, fst c) \<in> set (channels st)" using img by force
    then show False using keys by force
  qed
  have nh: "\<not> has_channel (snd (open_channel info st)) name"
    using new by (simp add: has_channel_def open_channel_def)
  show ?thesis
    using ok keys fresh_id fresh_topic img ids t nh
    by (auto simp: registry_ok_def set_channel_def open_channel_def list_all_iff)
qed

lemma distinct_fst_same_key:
  "distinct (map fst xs) \<Longrightarrow> (k, v) \<in> set xs \<Longrightarrow> (k, v') \<in> set xs \<Longrightarrow> v = v'"
  by (induction xs) force+

lemma distinct_fst_same_entry:
  "distinct (map fst xs) \<Longrightarrow> c \<in> set xs \<Longrightarrow> c' \<in> set xs \<Longrightarrow> fst c = fst c' \<Longrightarrow> c = c'"
  by (metis distinct_fst_same_key prod.collapse)

lemma registry_ok_unsubscribe:
  assumes ok: "registry_ok st"
  shows "registry_ok (snd (unsubscribe k settles st))"
proof (cases "map_of (channels st) k")
  case None
  then show ?thesis using ok by (simp add: unsubscribe_absent)
next
  case (Some ch)
  let ?g = "\<lambda>c. (topic (snd c), fst c)"
  have dk: "distinct (map fst (channels st))" and di: "distinct (map fst (live_channels st))"
    and dt: "distinct (map (\<lambda>c. topic (snd c)) (live_channels st))"
    and img: "?g ` set (live_channels st) = set (channels st)"
    and ids: "list_all (\<lambda>c. fst c < next_channel st) (live_channels st)"
    and idle: "unsubscribing st = []"
    using ok by (simp_all add: registry_ok_def)
  have kch: "(k, ch) \<in> set (channels st)" using Some by (rule map_of_SomeD)
  have live_ch: "?g c \<in> set (channels st)" if "c \<in> set (live_channels st)" for c
    using imageI [OF that, of ?g] unfolding img .
  have ch_live: "\<exists>c\<in>set (live_channels st). e = ?g c" if "e \<in> set (channels st)" for e
    using that unfolding img [symmetric] by (rule imageE) blast
  have removed:
    "?g ` {c \<in> set (live_channels st). fst c \<noteq> ch} = {e \<in> set (channels st). fst e \<noteq> k}"
  proof (intro set_eqI iffI)
    fix e assume "e \<in> ?g ` {c \<in> set (live_channels st). fst c \<noteq> ch}"
    then obtain c where c: "c \<in> set (live_channels st)" "fst c \<noteq> ch" "e = ?g c" by auto
    then have e: "e \<in> set (channels st)" using live_ch by simp
    have "fst e \<noteq> k"
    proof
      assume "fst e = k"
      then have m: "(k, fst c) \<in> set (channels st)" using e c by simp
      have "fst c = ch" by (rule distinct_fst_same_key [OF dk m kch])
      then show False using c by simp
    qed
    then show "e \<in> {e \<in> set (channels st). fst e \<noteq> k}" using e by simp
  next
    fix e assume "e \<in> {e \<in> set (channels st). fst e \<noteq> k}"
    then have e: "e \<in> set (channels st)" "fst e \<noteq> k" by simp_all
    then obtain c where c: "c \<in> set (live_channels st)" "e = ?g c" using ch_live by blast
    obtain c' where c': "c' \<in> set (live_channels st)" "(k, ch) = ?g c'"
      using kch ch_live by blast
    have "fst c \<noteq> ch"
    proof
      assume "fst c = ch"
      then have "c = c'" using c c' di by (intro distinct_fst_same_entry [OF di]) auto
      then show False using c c' e by auto
    qed
    then show "e \<in> ?g ` {c \<in> set (live_channels st). fst c \<noteq> ch}" using c by auto
  qed
  show ?thesis
  proof (cases settles)
    case (Rejected m)
    then show ?thesis
      using Some ok by (simp add: unsubscribe_complete [OF idle] registry_ok_def)
  next
    case (Resolved status)
    then show ?thesis
      using Some dk di dt ids idle removed
      by (simp add: unsubscribe_complete [OF idle] registry_ok_def distinct_map_filter
                    list_all_iff)
  qed
qed

lemma has_channel_set_channel: "has_channel (set_channel name ch st) name"
proof (cases "has_channel st name")
  case True
  let ?f = "\<lambda>e. if fst e = name then (name, ch) else e"
  from True obtain b where "(name, b) \<in> set (channels st)" by (auto simp: has_channel_keys)
  then have "?f (name, b) \<in> ?f ` set (channels st)" by (rule imageI)
  then have "(name, ch) \<in> set (map ?f (channels st))" by simp
  then have "fst (name, ch) \<in> fst ` set (map ?f (channels st))" by (rule imageI)
  moreover have "channels (set_channel name ch st) = map ?f (channels st)"
    using True by (simp add: set_channel_def)
  ultimately show ?thesis by (simp add: has_channel_keys)
next
  case False
  then show ?thesis by (simp add: has_channel_keys set_channel_def)
qed

text \<open>The shape the three subscribe functions share.\<close>

lemma subscribe_shape:
  assumes shape: "\<And>s. subscribe s =
              (if has_channel s key
               then (Unsubscribe key, s \<lparr> warnings := warnings s @ [w] \<rparr>)
               else (case open_channel info s of
                       (channel, s1) \<Rightarrow> (Unsubscribe key, set_channel key channel s1)))"
    and t: "topic info = key"
  shows "registry_ok st \<Longrightarrow> registry_ok (snd (subscribe st))"
    and "has_channel (snd (subscribe st)) key"
    and "fst (subscribe st) = Unsubscribe key"
    and "has_channel st key \<Longrightarrow> \<exists>ws. subscribe st = (Unsubscribe key, st \<lparr> warnings := ws \<rparr>)"
proof -
  show "registry_ok st \<Longrightarrow> registry_ok (snd (subscribe st))"
    using registry_ok_open [of st key info, OF _ _ t]
    by (cases "has_channel st key") (simp_all add: shape case_prod_beta)
  show "has_channel (snd (subscribe st)) key"
  proof (cases "has_channel st key")
    case True
    then show ?thesis by (simp add: shape has_channel_def)
  next
    case False
    then show ?thesis by (simp add: shape case_prod_beta has_channel_set_channel)
  qed
  show "fst (subscribe st) = Unsubscribe key"
    by (simp add: shape split: prod.splits)
  show "has_channel st key \<Longrightarrow> \<exists>ws. subscribe st = (Unsubscribe key, st \<lparr> warnings := ws \<rparr>)"
    by (intro exI [of _ "warnings st @ [w]"]) (simp add: shape)
qed

lemma subscribeToDriverLocation_shape:
  "subscribeToDriverLocation tripId driverId s =
     (if has_channel s (''trip:'' @ tripId @ '':driver:'' @ driverId)
      then (Unsubscribe (''trip:'' @ tripId @ '':driver:'' @ driverId),
            s \<lparr> warnings := warnings s @ [''Already subscribed to driver location''] \<rparr>)
      else (case open_channel
                   \<lparr> topic = ''trip:'' @ tripId @ '':driver:'' @ driverId, on_event = ''UPDATE'',
                     on_table = ''live_locations'',
                     on_filter = ''trip_id=eq.'' @ tripId @ '',user_id=eq.'' @ driverId \<rparr> s of
              (channel, s1) \<Rightarrow>
                (Unsubscribe (''trip:'' @ tripId @ '':driver:'' @ driverId),
                 set_channel (''trip:'' @ tripId @ '':driver:'' @ driverId) channel s1)))"
  unfolding subscribeToDriverLocation_def Let_def by (rule refl)

lemma subscribeToTripStatus_shape:
  "subscribeToTripStatus tripId s =
     (if has_channel s (''trip:'' @ tripId @ '':status'')
      then (Unsubscribe (''trip:'' @ tripId @ '':status''),
            s \<lparr> warnings := warnings s @ [''Already subscribed to trip status''] \<rparr>)
      else (case open_channel
                   \<lparr> topic = ''trip:'' @ tripId @ '':status'', on_event = ''UPDATE'',
                     on_table = ''trips'', on_filter = ''id=eq.'' @ tripId \<rparr> s of
              (channel, s1) \<Rightarrow>
                (Unsubscribe (''trip:'' @ tripId @ '':status''),
                 set_channel (''trip:'' @ tripId @ '':status'') channel s1)))"
  unfolding subscribeToTripStatus_def Let_def by (rule refl)

lemma subscribeToPassengers_shape:
  "subscribeToPassengers tripId s =
     (if has_channel s (''trip:'' @ tripId @ '':passengers'')
      then (Unsubscribe (''trip:'' @ tripId @ '':passengers''),
            s \<lparr> warnings := warnings s @ [''Already subscribed to passengers''] \<rparr>)
      else (case open_channel
                   \<lparr> topic = ''trip:'' @ tripId @ '':passengers'', on_event = ''*'',
                     on_table = ''live_locations'', on_filter = ''trip_id=eq.'' @ tripId \<rparr> s of
              (channel, s1) \<Rightarrow>
                (Unsubscribe (''trip:'' @ tripId @ '':passengers''),
                 set_channel (''trip:'' @ tripId @ '':passengers'') channel s1)))"
  unfolding subscribeToPassengers_def Let_def by (rule refl)

lemma registry_ok_subscribeToDriverLocation:
  "registry_ok st \<Longrightarrow> registry_ok (snd (subscribeToDriverLocation tripId driverId st))"
  by (rule subscribe_shape(1) [OF subscribeToDriverLocation_shape]) simp_all

lemma registry_ok_subscribeToTripStatus:
  "registry_ok st \<Longrightarrow> registry_ok (snd (subscribeToTripStatus tripId st))"
  by (rule subscribe_shape(1) [OF subscribeToTripStatus_shape]) simp_all

lemma registry_ok_subscribeToPassengers:
  "registry_ok st \<Longrightarrow> registry_ok (snd (subscribeToPassengers tripId st))"
  by (rule subscribe_shape(1) [OF subscribeToPassengers_shape]) simp_all

lemma registry_ok_stopLocationTracking:
  "registry_ok (stopLocationTracking st) = registry_ok st"
  by (cases "locationWatchId st") (simp_all add: stopLocationTracking_def registry_ok_def Let_def)

lemma registry_ok_unsubscribe_each:
  "registry_ok st \<Longrightarrow> registry_ok (snd (unsubscribe_each settles ks st))"
proof (induction ks arbitrary: st)
  case Nil
  then show ?case by simp
next
  case (Cons k ks)
  obtain r st1 where u: "unsubscribe k (settles k) st = (r, st1)"
    by (cases "unsubscribe k (settles k) st")
  have ok1: "registry_ok st1" using registry_ok_unsubscribe [OF Cons.prems, of k "settles k"] u by simp
  show ?case using u ok1 Cons.IH [OF ok1] by (cases r) simp_all
qed

lemma registry_ok_unsubscribeAll:
  "registry_ok st \<Longrightarrow> registry_ok (snd (unsubscribeAll settles st))"
proof -
  assume ok: "registry_ok st"
  obtain r st1 where u: "unsubscribe_each settles (map fst (channels st)) st = (r, st1)"
    by (cases "unsubscribe_each settles (map fst (channels st)) st")
  have "registry_ok st1"
    using registry_ok_unsubscribe_each [OF ok, of settles "map fst (channels st)"] u by simp
  then show ?thesis using u by (cases r) (simp_all add: unsubscribeAll_def registry_ok_stopLocationTracking)
qed

lemma registry_ok_startLocationTracking:
  "registry_ok (snd (startLocationTracking tripId st)) = registry_ok st"
  by (simp add: startLocationTracking_def registry_ok_def)

lemma registry_ok_call: "registry_ok st \<Longrightarrow> registry_ok (call c st)"
proof (cases c)
  case (InvokeCancel f settles)
  assume "registry_ok st"
  then show ?thesis using InvokeCancel by (cases f) (simp add: registry_ok_unsubscribe)
qed (simp_all add: registry_ok_subscribeToDriverLocation registry_ok_subscribeToTripStatus
       registry_ok_subscribeToPassengers registry_ok_unsubscribeAll
       registry_ok_stopLocationTracking registry_ok_startLocationTracking)

lemma registry_ok_calls: "registry_ok st \<Longrightarrow> registry_ok (calls cs st)"
  unfolding calls_def by (induction cs arbitrary: st) (simp_all add: registry_ok_call)

lemma distinct_map_filter_le_one:
  "distinct (map f xs) \<Longrightarrow> length (filter (\<lambda>x. f x = k) xs) \<le> 1"
proof (induction xs)
  case Nil
  then show ?case by simp
next
  case (Cons x xs)
  show ?case
  proof (cases "f x = k")
    case True
    then have "k \<notin> f ` set xs" using Cons.prems by auto
    then have "filter (\<lambda>x. f x = k) xs = []" by (auto simp: filter_empty_conv)
    then show ?thesis using True by simp
  next
    case False
    then show ?thesis using Cons by simp
  qed
qed

lemma registry_ok_live_on_le_one: "registry_ok st \<Longrightarrow> length (live_on st key) \<le> 1"
  unfolding live_on_def registry_ok_def by (intro distinct_map_filter_le_one) simp

lemma registry_ok_live_on_has:
  assumes "registry_ok st" "has_channel st key"
  shows "length (live_on st key) = 1"
proof -
  let ?g = "\<lambda>c. (topic (snd c), fst c)"
  from assms(2) obtain ch where "(key, ch) \<in> set (channels st)"
    by (auto simp: has_channel_keys)
  then have "(key, ch) \<in> ?g ` set (live_channels st)"
    using assms(1) by (simp add: registry_ok_def)
  then obtain c where "c \<in> set (live_channels st)" "topic (snd c) = key" by auto
  then have "c \<in> set (live_on st key)" by (simp add: live_on_def)
  then have "live_on st key \<noteq> []" by auto
  then have "0 < length (live_on st key)" by simp
  with registry_ok_live_on_le_one [OF assms(1), of key] show ?thesis by linarith
qed

lemma registry_ok_live_on_absent:
  assumes "registry_ok st" "\<not> has_channel st key"
  shows "live_on st key = []"
proof -
  have "topic (snd c) \<noteq> key" if c: "c \<in> set (live_channels st)" for c
  proof
    assume "topic (snd c) = key"
    with c have "(key, fst c) \<in> (\<lambda>c. (topic (snd c), fst c)) ` set (live_channels st)" by force
    then have "(key, fst c) \<in> set (channels st)" using assms(1) by (simp add: registry_ok_def)
    then show False using assms(2) by (force simp: has_channel_keys)
  qed
  then show ?thesis by (auto simp: live_on_def filter_empty_conv)
qed

lemma not_has_channel_unsubscribe:
  "unsubscribing st = [] \<Longrightarrow> \<not> has_channel (snd (unsubscribe key (Resolved status) st)) key"
  by (cases "map_of (channels st) key")
     (simp_all add: has_channel_def unsubscribe_complete map_of_filter_key)

lemma second_subscribe_joins_first_shape:
  assumes shape: "\<And>s. subscribe s =
              (if has_channel s key
               then (Unsubscribe key, s \<lparr> warnings := warnings s @ [w] \<rparr>)
               else (case open_channel info s of
                       (channel, s1) \<Rightarrow> (Unsubscribe key, set_channel key channel s1)))"
    and t: "topic info = key"
    and ok: "registry_ok st"
  shows "second_subscribe_joins_first subscribe key status st"
proof -
  note first = subscribe_shape [of subscribe key w info, OF shape t]
  obtain st1 where s1: "subscribe st = (Unsubscribe key, st1)"
    using first(3) [of st] by (cases "subscribe st") simp
  have ok1: "registry_ok st1" using first(1) [OF ok] s1 by simp
  have has1: "has_channel st1 key" using first(2) [of st] s1 by simp
  from first(4) [OF has1] obtain ws
    where s2: "subscribe st1 = (Unsubscribe key, st1 \<lparr> warnings := ws \<rparr>)"
    by blast
  let ?st2 = "st1 \<lparr> warnings := ws \<rparr>"
  have ok2: "registry_ok ?st2" using ok1 by simp
  have has2: "has_channel ?st2 key" using has1 by (simp add: has_channel_def)
  have one: "length (live_on ?st2 key) = 1" by (rule registry_ok_live_on_has [OF ok2 has2])
  have idle: "unsubscribing ?st2 = []" using ok2 by (simp add: registry_ok_def)
  have gone: "live_on (snd (unsubscribe key (Resolved status) ?st2)) key = []"
    by (rule registry_ok_live_on_absent
              [OF registry_ok_unsubscribe [OF ok2] not_has_channel_unsubscribe [OF idle]])
  show ?thesis
    using s1 s2 one gone not_has_channel_unsubscribe [OF idle, of key status]
    by (simp add: second_subscribe_joins_first_def)
qed

text \<open>
  Claim C4 as stated allows at most one live channel per key at any time. A cancel function
  invoked twice without awaiting leaves two \<open>unsubscribe\<close> calls at their \<^verbatim>\<open>await\<close>; when
  a subscribe runs between their continuations, the second continuation deletes the key of
  the new channel, and the next subscribe opens another channel under the same key.
\<close>

theorem two_channels_one_key_counterexample:
  "map fst (live_on
      (steps [Completes (SubscribeToTripStatus ''t1''),
              Invokes (Unsubscribe ''trip:t1:status'') (Resolved ''ok''),
              Invokes (Unsubscribe ''trip:t1:status'') (Resolved ''ok''),
              Resumes 0,
              Completes (SubscribeToTripStatus ''t1''),
              Resumes 1,
              Completes (SubscribeToTripStatus ''t1'')]
         (new_service True))
      ''trip:t1:status'') = [1, 2]"
  by code_simp

text \<open>
  Claim C4, amended. After any sequence of calls on a new service instance, each run to
  completion before the next begins, at most one channel is live at the transport under
  any one key; and a second subscribe call with the same arguments (for each of the three
  subscribe functions) opens no channel, leaves the registry as it is, and returns the same
  cancel function, which, awaited, ends the one channel of the key and removes the key.
\<close>

theorem one_channel_per_key:
  "length (live_on (calls cs (new_service geo)) key) \<le> 1
   \<and> second_subscribe_joins_first (subscribeToDriverLocation tripId driverId)
        (''trip:'' @ tripId @ '':driver:'' @ driverId) status (calls cs (new_service geo))
   \<and> second_subscribe_joins_first (subscribeToTripStatus tripId)
        (''trip:'' @ tripId @ '':status'') status (calls cs (new_service geo))
   \<and> second_subscribe_joins_first (subscribeToPassengers tripId)
        (''trip:'' @ tripId @ '':passengers'') status (calls cs (new_service geo))"
proof -
  let ?st = "calls cs (new_service geo)"
  have ok: "registry_ok ?st" by (rule registry_ok_calls [OF registry_ok_new])
  have a: "second_subscribe_joins_first (subscribeToDriverLocation tripId driverId)
        (''trip:'' @ tripId @ '':driver:'' @ driverId) status ?st"
    by (rule second_subscribe_joins_first_shape [OF subscribeToDriverLocation_shape _ ok]) simp
  have b: "second_subscribe_joins_first (subscribeToTripStatus tripId)
        (''trip:'' @ tripId @ '':status'') status ?st"
    by (rule second_subscribe_joins_first_shape [OF subscribeToTripStatus_shape _ ok]) simp
  have c: "second_subscribe_joins_first (subscribeToPassengers tripId)
        (''trip:'' @ tripId @ '':passengers'') status ?st"
    by (rule second_subscribe_joins_first_shape [OF subscribeToPassengers_shape _ ok]) simp
  show ?thesis using registry_ok_live_on_le_one [OF ok] a b c by blast
qed

theorem one_channel_per_key_witness:
  "length (live_on (calls [SubscribeToTripStatus ''t1'', SubscribeToTripStatus ''t1'',
                           SubscribeToPassengers ''t1'',
                           InvokeCancel (Unsubscribe ''trip:t1:status'') (Resolved ''ok''),
                           InvokeCancel (Unsubscribe ''trip:t1:status'') (Resolved ''ok''),
                           SubscribeToTripStatus ''t1''] (new_service True))
             ''trip:t1:status'') \<le> 1
   \<and> second_subscribe_joins_first (subscribeToTripStatus ''t1'') (''trip:'' @ ''t1'' @ '':status'')
        ''ok'' (calls [] (new_service True))"
proof -
  note a = one_channel_per_key
          [of "[SubscribeToTripStatus ''t1'', SubscribeToTripStatus ''t1'',
                SubscribeToPassengers ''t1'',
                InvokeCancel (Unsubscribe ''trip:t1:status'') (Resolved ''ok''),
                InvokeCancel (Unsubscribe ''trip:t1:status'') (Resolved ''ok''),
                SubscribeToTripStatus ''t1'']" True "''trip:t1:status''" "''t1''" "''d1''" "''ok''",
           THEN conjunct1]
  note b = one_channel_per_key
          [of "[]" True "''trip:t1:status''" "''t1''" "''d1''" "''ok''",
           THEN conjunct2, THEN conjunct2, THEN conjunct1]
  show ?thesis by (rule conjI [OF a b])
qed

end
